theory Spec2Isabelle
  imports Main
begin

section \<open>Byte strings as the Go standard library sees them\<close>

text \<open>
  Go strings and byte slices are modelled as \<open>string\<close> (a list of bytes). The
  functions of package \<open>strings\<close> and \<open>strconv\<close> that the masker calls are written
  out here. Where Go returns the sentinel \<open>-1\<close> for "not found" the model returns
  \<open>None\<close>.
\<close>

definition dq :: char where
  "dq = CHR 0x22"

definition quoted :: "string \<Rightarrow> string" where
  "quoted s = dq # s @ [dq]"

text \<open>\<open>strings.HasPrefix(s, sub)\<close>.\<close>

definition HasPrefix :: "string \<Rightarrow> string \<Rightarrow> bool" where
  "HasPrefix s sub = (take (length sub) s = sub)"

text \<open>\<open>strings.Index(s, sub)\<close>: the offset of the first occurrence of \<open>sub\<close>.\<close>

fun strIndex :: "string \<Rightarrow> string \<Rightarrow> nat option" where
  "strIndex [] sub = (if sub = [] then Some 0 else None)"
| "strIndex (c # cs) sub =
     (if HasPrefix (c # cs) sub then Some 0
      else map_option Suc (strIndex cs sub))"

text \<open>\<open>strings.IndexByte(s, c)\<close>.\<close>

fun IndexByte :: "string \<Rightarrow> char \<Rightarrow> nat option" where
  "IndexByte [] c = None"
| "IndexByte (x # xs) c = (if x = c then Some 0 else map_option Suc (IndexByte xs c))"

lemma strIndex_bound: "strIndex s sub = Some k \<Longrightarrow> k + length sub \<le> length s"
proof (induction s arbitrary: k)
  case Nil
  then show ?case by (simp split: if_splits)
next
  case (Cons c cs)
  show ?case
  proof (cases "HasPrefix (c # cs) sub")
    case True
    then have "length (take (length sub) (c # cs)) = length sub"
      by (simp only: HasPrefix_def)
    then have "length sub \<le> length (c # cs)"
      by (simp only: length_take)
    with True Cons.prems show ?thesis by simp
  next
    case False
    with Cons.prems obtain j where "strIndex cs sub = Some j" "k = Suc j"
      by auto
    with Cons.IH show ?thesis by fastforce
  qed
qed

text \<open>
  \<open>strings.Count(s, sub)\<close>: the number of non-overlapping occurrences of \<open>sub\<close>,
  scanning from the left; for the empty \<open>sub\<close> Go answers one more than the number of
  characters.
\<close>

function Count :: "string \<Rightarrow> string \<Rightarrow> nat" where
  "Count s sub =
     (if sub = [] then length s + 1
      else case strIndex s sub of
             None \<Rightarrow> 0
           | Some k \<Rightarrow> 1 + Count (drop (k + length sub) s) sub)"
  by pat_completeness auto
termination
proof (relation "measure (\<lambda>(s, sub). length s)")
  show "wf (measure (\<lambda>(s, sub). length s))" by simp
next
  fix s sub :: string and k
  assume "sub \<noteq> []" "strIndex s sub = Some k"
  then have "k + length sub \<le> length s" "0 < length sub"
    by (auto dest: strIndex_bound)
  then have "length (drop (k + length sub) s) < length s"
    by (simp only: length_drop)
  then show "((drop (k + length sub) s, sub), (s, sub)) \<in> measure (\<lambda>(s, sub). length s)"
    by simp
qed

declare Count.simps [simp del]

text \<open>
  \<open>strings.ReplaceAll(s, old, new)\<close> for a non-empty \<open>old\<close>; with an empty \<open>old\<close> Go
  inserts \<open>new\<close> before every character and at the end.
\<close>

function ReplaceAll :: "string \<Rightarrow> string \<Rightarrow> string \<Rightarrow> string" where
  "ReplaceAll s old new =
     (if old = [] then new @ concat (map (\<lambda>c. c # new) s)
      else case strIndex s old of
             None \<Rightarrow> s
           | Some k \<Rightarrow> take k s @ new @ ReplaceAll (drop (k + length old) s) old new)"
  by pat_completeness auto
termination
proof (relation "measure (\<lambda>(s, old, new). length s)")
  show "wf (measure (\<lambda>(s, old, new). length s))" by simp
next
  fix s old new :: string and k
  assume "old \<noteq> []" "strIndex s old = Some k"
  then have "k + length old \<le> length s" "0 < length old"
    by (auto dest: strIndex_bound)
  then have "length (drop (k + length old) s) < length s"
    by (simp only: length_drop)
  then show "((drop (k + length old) s, old, new), (s, old, new))
      \<in> measure (\<lambda>(s, old, new). length s)"
    by simp
qed

declare ReplaceAll.simps [simp del]

text \<open>\<open>strconv.Itoa(i)\<close>: the decimal numeral of an integer.\<close>

definition digit :: "nat \<Rightarrow> char" where
  "digit d = ''0123456789'' ! d"

fun natStr :: "nat \<Rightarrow> string" where
  "natStr n = (if n < 10 then [digit n] else natStr (n div 10) @ [digit (n mod 10)])"

declare natStr.simps [simp del]

definition Itoa :: "int \<Rightarrow> string" where
  "Itoa i = (if i < 0 then CHR ''-'' # natStr (nat (- i)) else natStr (nat i))"

section \<open>The built-in maskers (maskers.go)\<close>

text \<open>
  Every masker has the signature \<open>func(string) []byte\<close>: it receives the raw JSON text
  of one value, quotes included, and returns the raw replacement.

  \<open>bytes.ToUpper\<close>, \<open>bytes.ToLower\<close> and \<open>strings.ToUpper\<close> of the Go library
  map a text of ASCII bytes byte by byte (\<open>a..z\<close> to \<open>A..Z\<close> and back), and hand every
  other text to \<open>Map(unicode.ToUpper, s)\<close> or \<open>Map(unicode.ToLower, s)\<close>, which
  decode UTF-8 and use the tables of package \<open>unicode\<close>. The tables are not part of the
  repository: the two mappings are a parameter of the model, of type \<open>Unicode\<close>.
\<close>

record Unicode =
  MapToUpper :: "string \<Rightarrow> string"
  MapToLower :: "string \<Rightarrow> string"

definition isASCII :: "string \<Rightarrow> bool" where
  "isASCII s = list_all (\<lambda>c. (of_char c :: nat) < 128) s"

definition upperChar :: "char \<Rightarrow> char" where
  "upperChar c =
     (if 97 \<le> (of_char c :: nat) \<and> (of_char c :: nat) \<le> 122
      then char_of ((of_char c :: nat) - 32) else c)"

definition lowerChar :: "char \<Rightarrow> char" where
  "lowerChar c =
     (if 65 \<le> (of_char c :: nat) \<and> (of_char c :: nat) \<le> 90
      then char_of ((of_char c :: nat) + 32) else c)"

definition ToUpper :: "Unicode \<Rightarrow> string \<Rightarrow> string" where
  "ToUpper u s = (if isASCII s then map upperChar s else MapToUpper u s)"

definition ToLower :: "Unicode \<Rightarrow> string \<Rightarrow> string" where
  "ToLower u s = (if isASCII s then map lowerChar s else MapToLower u s)"

definition Upper :: "Unicode \<Rightarrow> string \<Rightarrow> string" where
  "Upper u s = ToUpper u s"

definition Lower :: "Unicode \<Rightarrow> string \<Rightarrow> string" where
  "Lower u s = ToLower u s"

definition InitialChar :: "Unicode \<Rightarrow> string \<Rightarrow> string" where
  "InitialChar u s = (if length s > 2 then ToUpper u (take 2 s @ [dq]) else s)"

text \<open>
  Go's \<open>int\<close> has 64 bits; \<open>wrap64\<close> is its wrap-around. \<open>PrefixFn(length,
  addEllipsis)\<close> returns a function that can panic: the slice \<open>s[:length+1]\<close> needs
  \<open>0 \<le> length+1 \<le> len(s)\<close>. \<open>None\<close> stands for the panic. The registered instance
  \<open>PrefixFn(4, false)\<close> does not panic, and \<open>first4\<close> is that function.
\<close>

definition wrap64 :: "int \<Rightarrow> int" where
  "wrap64 x = (x + 2 ^ 63) mod 2 ^ 64 - 2 ^ 63"

definition PrefixFn :: "int \<Rightarrow> bool \<Rightarrow> string \<Rightarrow> string option" where
  "PrefixFn len addEllipsis s =
     (if int (length s) \<le> wrap64 (len + 2) then Some s
      else if wrap64 (len + 1) < 0 \<or> int (length s) < wrap64 (len + 1) then None
      else Some (take (nat (wrap64 (len + 1))) s
                 @ (if addEllipsis then ''...'' @ [dq] else [dq])))"

definition first4 :: "string \<Rightarrow> string" where
  "first4 s = (case PrefixFn 4 False s of Some res \<Rightarrow> res | None \<Rightarrow> s)"

definition Truncate :: "Unicode \<Rightarrow> string \<Rightarrow> string" where
  "Truncate u s = (if length s > 2 \<and> ToUpper u s \<noteq> ''NULL'' then [dq, dq] else s)"

definition Null :: "string \<Rightarrow> string" where
  "Null s = ''null''"

definition Zero :: "string \<Rightarrow> string" where
  "Zero s = ''0''"

subsection \<open>Email\<close>

definition invalidEmail :: string where
  "invalidEmail = quoted ''invalid_email_format''"

text \<open>
  The first loop of \<open>Email\<close>: \<open>for i := 1; i < len(emailBytes)-1; i++\<close>, looking for
  the first \<open>@\<close>. \<open>None\<close> stands for \<open>atIndex == -1\<close>.
\<close>

function atLoop :: "string \<Rightarrow> nat \<Rightarrow> nat option" where
  "atLoop b i =
     (if i + 1 < length b
      then (if b ! i = CHR ''@'' then Some i else atLoop b (i + 1))
      else None)"
  by pat_completeness auto
termination
  by (relation "measure (\<lambda>(b, i). length b - i)") auto

declare atLoop.simps [simp del]

text \<open>The masking loop, used three times: \<open>for i := lo; i < hi; i++ { emailBytes[i] = '*' }\<close>.\<close>

function starLoop :: "string \<Rightarrow> nat \<Rightarrow> nat \<Rightarrow> string" where
  "starLoop b i hi = (if i < hi then starLoop (b[i := CHR ''*'']) (i + 1) hi else b)"
  by pat_completeness auto
termination
  by (relation "measure (\<lambda>(b, i, hi). hi - i)") auto

declare starLoop.simps [simp del]

text \<open>
  The scan for the last dot: \<open>for i := len(emailBytes) - 2; i > atIndex; i--\<close>.
  \<open>None\<close> stands for \<open>lastDotIndex == -1\<close>.
\<close>

function dotLoop :: "string \<Rightarrow> nat \<Rightarrow> nat \<Rightarrow> nat option" where
  "dotLoop b i atIndex =
     (if i > atIndex
      then (if b ! i = CHR ''.'' then Some i else dotLoop b (i - 1) atIndex)
      else None)"
  by pat_completeness auto
termination
  by (relation "measure (\<lambda>(b, i, atIndex). i)") auto

declare dotLoop.simps [simp del]

definition Email :: "string \<Rightarrow> string" where
  "Email email =
     (if length email < 2 \<or> email ! 0 \<noteq> dq \<or> email ! (length email - 1) \<noteq> dq
      then invalidEmail
      else
        case atLoop email 1 of
          None \<Rightarrow> invalidEmail
        | Some atIndex \<Rightarrow>
            if atIndex \<le> 1 \<or> atIndex = length email - 1 then invalidEmail
            else
              let emailBytes =
                    (if atIndex - 1 \<le> 2 then starLoop email 2 atIndex
                     else starLoop email 2 (atIndex - 1))
              in case dotLoop emailBytes (length emailBytes - 2) atIndex of
                   None \<Rightarrow> invalidEmail
                 | Some lastDotIndex \<Rightarrow> starLoop emailBytes (atIndex + 2) lastDotIndex)"

section \<open>Rules and the masker (jsonmask.go)\<close>

text \<open>
  \<open>joinPath\<close> joins parent and child attribute names with the JSON path separator.
\<close>

fun joinPath :: "string \<Rightarrow> string \<Rightarrow> string" where
  "joinPath parent child = (if parent = [] then child else parent @ ''.'' @ child)"

subsection \<open>What reflection sees of a Go value\<close>

text \<open>
  \<open>ParseStruct\<close> walks its argument with package \<open>reflect\<close>. The walk only asks for
  kinds, element types, struct fields and tags; where it needs a value it has not got
  (a nil pointer, an empty slice) it makes a zero value of the static type, and the kind
  of \<open>Elem()\<close>, \<open>Index(0)\<close> and \<open>Field(i)\<close> is the kind of the static type. So the
  walk is a function of the type of the argument, and the model takes that type.

  \<open>Basic\<close> stands for every kind other than \<open>Ptr\<close>, \<open>Slice\<close>, \<open>Array\<close>,
  \<open>Map\<close> and \<open>Struct\<close> (booleans, numbers, strings, interfaces, functions, channels,
  and the invalid kind of a nil interface). A struct tag is the list of its
  \<open>key:"value"\<close> pairs. Type descriptions are finite trees: a recursive Go type, on
  which the source's walk does not return, has no description here.
\<close>

datatype gotype = Basic | Ptr gotype | Slice gotype | Array nat gotype | MapT gotype gotype
  | Struct "sfield list"
and sfield = Field (Name: string) (IsExported: bool) (Tag: "(string \<times> string) list") (Type: gotype)

text \<open>
  A rule: the JSON path of a field, the action (the name of a masking function, or
  \<open>-\<close> to delete the field) and the unexported \<open>sliceLevel\<close> (0: no slice,
  1: slice, 2: slice of slices, ...).
\<close>

record Rule =
  Path :: string
  Action :: string
  sliceLevel :: int

record StructMaskRules =
  Rules :: "Rule list"

text \<open>The masker: the struct tag to read and the table of masking functions.\<close>

record JsonMaskerImpl =
  tag :: string
  funcs :: "string \<Rightarrow> (string \<Rightarrow> string) option"

definition DefaultStructFieldTag :: string where
  "DefaultStructFieldTag = ''mask''"

definition AddFunc :: "JsonMaskerImpl \<Rightarrow> string \<Rightarrow> (string \<Rightarrow> string) \<Rightarrow> JsonMaskerImpl" where
  "AddFunc jm name f = jm\<lparr>funcs := (funcs jm)(name \<mapsto> f)\<rparr>"

text \<open>
  \<open>NewWithMaskTag(tag)\<close> as the source has it: the field \<open>tag\<close> is initialised
  with \<open>DefaultStructFieldTag\<close>, and the parameter is not used. The first argument of
  the model is the Unicode mapping that \<open>Upper\<close>, \<open>Lower\<close>, \<open>InitialChar\<close> and
  \<open>Truncate\<close> take from the Go library.
\<close>

definition NewWithMaskTag :: "Unicode \<Rightarrow> string \<Rightarrow> JsonMaskerImpl" where
  "NewWithMaskTag u tg =
     (let jm = \<lparr>tag = DefaultStructFieldTag, funcs = Map.empty\<rparr>;
          jm = AddFunc jm ''upper'' (Upper u);
          jm = AddFunc jm ''lower'' (Lower u);
          jm = AddFunc jm ''initialChar'' (InitialChar u);
          jm = AddFunc jm ''truncate'' (Truncate u);
          jm = AddFunc jm ''null'' Null;
          jm = AddFunc jm ''email'' Email;
          jm = AddFunc jm ''first4'' first4;
          jm = AddFunc jm ''zero'' Zero
      in jm)"

definition New :: "Unicode \<Rightarrow> JsonMaskerImpl" where
  "New u = NewWithMaskTag u DefaultStructFieldTag"

subsection \<open>Deriving the rules of a struct\<close>

text \<open>\<open>StructTag.Get(key)\<close>: the value of the key, or the empty string.\<close>

definition Get :: "(string \<times> string) list \<Rightarrow> string \<Rightarrow> string" where
  "Get tg key = (case map_of tg key of None \<Rightarrow> [] | Some v \<Rightarrow> v)"

definition parseFieldTag :: "JsonMaskerImpl \<Rightarrow> sfield \<Rightarrow> string \<times> string" where
  "parseFieldTag jm field =
     (let jsonAttr = Get (Tag field) ''json'';
          jsonAttr' =
            (if jsonAttr = [] \<or> jsonAttr ! 0 = CHR '','' then Name field
             else case IndexByte jsonAttr (CHR '','') of
                    Some idx \<Rightarrow> take idx jsonAttr
                  | None \<Rightarrow> jsonAttr)
      in (jsonAttr', Get (Tag field) (tag jm)))"

text \<open>
  The pointer loop \<open>for val.Kind() == reflect.Ptr\<close> of both functions: a nil pointer is replaced by a
  zero value of its element type, any other by what it points to.
\<close>

fun derefPtr :: "gotype \<Rightarrow> gotype" where
  "derefPtr (Ptr t) = derefPtr t"
| "derefPtr t = t"

fun isSliceOrArray :: "gotype \<Rightarrow> bool" where
  "isSliceOrArray (Slice t) = True"
| "isSliceOrArray (Array n t) = True"
| "isSliceOrArray t = False"

fun Elem :: "gotype \<Rightarrow> gotype" where
  "Elem (Slice t) = t"
| "Elem (Array n t) = t"
| "Elem (Ptr t) = t"
| "Elem t = t"

fun isComposite :: "gotype \<Rightarrow> bool" where
  "isComposite (Ptr t) = True"
| "isComposite (Slice t) = True"
| "isComposite (Array n t) = True"
| "isComposite (Struct flds) = True"
| "isComposite (MapT k v) = True"
| "isComposite Basic = False"

text \<open>
  The loop of the \<open>reflect.Slice\<close> case: one \<open>.#\<close> for every further level of
  slices.
\<close>

fun sliceLoop :: "gotype \<Rightarrow> string \<Rightarrow> gotype \<times> string" where
  "sliceLoop (Slice t) jsonAttrName = sliceLoop t (jsonAttrName @ ''.#'')"
| "sliceLoop t jsonAttrName = (t, jsonAttrName)"

lemma size_derefPtr: "size (derefPtr t) \<le> size t"
  by (induction t rule: derefPtr.induct) auto

lemma size_Elem: "size (Elem t) \<le> size t"
  by (cases t) auto

lemma size_sliceLoop: "size (fst (sliceLoop t n)) \<le> size t"
  by (induction t n rule: sliceLoop.induct) auto

lemma size_field_in_struct: "sf \<in> set fs \<Longrightarrow> size sf < size (Struct fs)"
  by (induction fs) auto

lemma size_Type: "size (Type sf) < size sf"
  by (cases sf) simp

function extractStructRules :: "JsonMaskerImpl \<Rightarrow> gotype \<Rightarrow> string \<Rightarrow> Rule list"
  and extractStructFieldRules :: "JsonMaskerImpl \<Rightarrow> sfield \<Rightarrow> string \<Rightarrow> Rule list"
where
  "extractStructRules jm str parentAttr =
     (case derefPtr str of
        Struct flds \<Rightarrow>
          concat (map (\<lambda>sft. if \<not> IsExported sft then []
                             else extractStructFieldRules jm sft parentAttr) flds)
      | _ \<Rightarrow> [])"
| "extractStructFieldRules jm sf parentAttr =
     (let val0 = derefPtr (Type sf);
          isSlice = isSliceOrArray val0;
          val1 = (if isSlice then Elem val0 else val0);
          jsonAttrName = fst (parseFieldTag jm sf);
          jsonMaskTag = snd (parseFieldTag jm sf)
      in if jsonMaskTag = ''-''
         then [\<lparr>Path = joinPath parentAttr jsonAttrName, Action = jsonMaskTag, sliceLevel = 0\<rparr>]
         else if \<not> isComposite val1
         then (if jsonMaskTag = [] then []
               else [\<lparr>Path = joinPath parentAttr jsonAttrName, Action = jsonMaskTag,
                      sliceLevel = 0\<rparr>])
         else
           let jsonAttrName' =
                 (if isSlice then joinPath parentAttr (jsonAttrName @ ''.#'') else jsonAttrName)
           in case val1 of
                Struct flds \<Rightarrow> extractStructRules jm val1 jsonAttrName'
              | Slice t \<Rightarrow>
                  extractStructRules jm (fst (sliceLoop val1 jsonAttrName'))
                    (snd (sliceLoop val1 jsonAttrName'))
              | _ \<Rightarrow> [\<lparr>Path = joinPath parentAttr jsonAttrName',
                        Action = Get (Tag sf) (tag jm), sliceLevel = 0\<rparr>])"
  by pat_completeness auto
termination
proof (relation "measure (case_sum (\<lambda>(jm, t, p). size t) (\<lambda>(jm, sf, p). size sf))",
    goal_cases)
  case 1
  show ?case by simp
next
  case (2 jm str parentAttr flds sft)
  then show ?case
    using size_field_in_struct[of sft flds] size_derefPtr[of str] by simp
next
  case (3 jm sf parentAttr x xa xb xc xd xe)
  have "size xb < size sf"
    using 3 size_Type[of sf] size_derefPtr[of "Type sf"] size_Elem[of "derefPtr (Type sf)"]
    by (auto split: if_splits)
  then show ?case
    using size_sliceLoop[of xb xe] by (simp add: split_beta)
next
  case (4 jm sf parentAttr x xa xb xc xd xe)
  have "size xb < size sf"
    using 4 size_Type[of sf] size_derefPtr[of "Type sf"] size_Elem[of "derefPtr (Type sf)"]
    by (auto split: if_splits)
  then show ?case
    using size_sliceLoop[of xb xe] by (simp add: split_beta)
qed

declare extractStructRules.simps [simp del]
declare extractStructFieldRules.simps [simp del]

text \<open>
  \<open>ParseStruct\<close>: the rules of the struct, each with its \<open>sliceLevel\<close> set to the
  number of \<open>.#\<close> in its path.
\<close>

definition ParseStruct :: "JsonMaskerImpl \<Rightarrow> gotype \<Rightarrow> StructMaskRules" where
  "ParseStruct jm src =
     \<lparr>Rules = map (\<lambda>r. r\<lparr>sliceLevel := int (Count (Path r) ''.#'')\<rparr>)
                   (extractStructRules jm src [])\<rparr>"

subsection \<open>The document library\<close>

text \<open>
  The masker reads and edits the document only through \<open>gjson.GetBytes\<close>,
  \<open>sjson.DeleteBytes\<close> and \<open>sjson.SetRawBytes\<close>, which are not part of the
  repository. They are parameters of the model: a \<open>Document\<close> is any triple of such
  operations over a document type \<open>'d\<close>, with library errors of type \<open>'e\<close>. Of a
  \<open>gjson.Result\<close> the masker uses \<open>Exists()\<close>, \<open>Raw\<close> and \<open>Int()\<close>.
\<close>

record Result =
  Exists :: bool
  Raw :: string
  IntVal :: int

text \<open>
  The errors of \<open>Mask\<close>: \<open>errors.New("invalid json array path")\<close>,
  \<open>errors.New("json array not found")\<close>, and whatever the library returns.
\<close>

datatype 'e error = InvalidJsonArrayPath | JsonArrayNotFound | LibraryError 'e

record ('d, 'e) Document =
  GetBytes :: "'d \<Rightarrow> string \<Rightarrow> Result"
  DeleteBytes :: "'d \<Rightarrow> string \<Rightarrow> 'e + 'd"
  SetRawBytes :: "'d \<Rightarrow> string \<Rightarrow> string \<Rightarrow> 'e + 'd"

definition lib :: "'e + 'd \<Rightarrow> 'e error + 'd" where
  "lib r = (case r of Inl e \<Rightarrow> Inl (LibraryError e) | Inr d \<Rightarrow> Inr d)"

subsection \<open>Applying the rules\<close>

definition maskSimplePath ::
  "JsonMaskerImpl \<Rightarrow> ('d, 'e) Document \<Rightarrow> 'd \<Rightarrow> string \<Rightarrow> string \<Rightarrow> 'e error + 'd" where
  "maskSimplePath jm js data path action =
     (if action = ''-'' then lib (DeleteBytes js data path)
      else case funcs jm action of
             None \<Rightarrow> Inr data
           | Some maskFunc \<Rightarrow>
               let value = GetBytes js data path;
                   maskedValue = maskFunc (Raw value)
               in lib (SetRawBytes js data path maskedValue))"

text \<open>
  \<open>rangeOverArray\<close> and its loop \<open>for i := 0; i < int(arr.Int()); i++\<close>. The loop
  carries the document; \<open>arr\<close> is read once, before the loop.
\<close>

function rangeOverArray ::
  "JsonMaskerImpl \<Rightarrow> ('d, 'e) Document \<Rightarrow> 'd \<Rightarrow> Rule \<Rightarrow> string \<Rightarrow> string \<Rightarrow> 'e error + 'd"
  and rangeLoop ::
  "JsonMaskerImpl \<Rightarrow> ('d, 'e) Document \<Rightarrow> Rule \<Rightarrow> string \<Rightarrow> string \<Rightarrow> int \<Rightarrow> nat \<Rightarrow> 'd
     \<Rightarrow> 'e error + 'd"
where
  "rangeOverArray jm js data rule arrPath arrItemPath =
     (let arr = GetBytes js data arrPath
      in if \<not> Exists arr then Inl JsonArrayNotFound
         else rangeLoop jm js rule arrPath arrItemPath (IntVal arr) 0 data)"
| "rangeLoop jm js rule arrPath arrItemPath n i data =
     (if int i < n then
        let path = ReplaceAll arrPath ''#'' (Itoa (int i))
        in if Action rule = ''-'' then
             (case lib (DeleteBytes js data (path @ arrItemPath)) of
                Inl err \<Rightarrow> Inl err
              | Inr data' \<Rightarrow> rangeLoop jm js rule arrPath arrItemPath n (i + 1) data')
           else
             (case strIndex arrItemPath ''.#'' of
                None \<Rightarrow>
                  (case funcs jm (Action rule) of
                     None \<Rightarrow> rangeLoop jm js rule arrPath arrItemPath n (i + 1) data
                   | Some maskFunc \<Rightarrow>
                       let value = GetBytes js data (path @ arrItemPath);
                           maskedValue = maskFunc (Raw value)
                       in (case lib (SetRawBytes js data (path @ arrItemPath) maskedValue) of
                             Inl err \<Rightarrow> Inl err
                           | Inr data' \<Rightarrow>
                               rangeLoop jm js rule arrPath arrItemPath n (i + 1) data'))
              | Some subArrIdx \<Rightarrow>
                  (case rangeOverArray jm js data rule
                          (path @ take (subArrIdx + 2) arrItemPath)
                          (drop (subArrIdx + 2) arrItemPath) of
                     Inl err \<Rightarrow> Inl err
                   | Inr data' \<Rightarrow> rangeLoop jm js rule arrPath arrItemPath n (i + 1) data'))
      else Inr data)"
  by pat_completeness auto
termination
proof (relation "inv_image (less_than <*lex*> less_than <*lex*> less_than)
    (case_sum (\<lambda>(jm, js, data, rule, arrPath, arrItemPath). (length arrItemPath, 1, 0))
              (\<lambda>(jm, js, rule, arrPath, arrItemPath, n, i, data).
                  (length arrItemPath, 0, nat (n - int i))))", goal_cases)
  case 1
  show ?case by (intro wf_inv_image wf_lex_prod wf_less_than)
next
  case 2
  show ?case by simp
next
  case 3
  then show ?case by simp
next
  case 4
  then show ?case by simp
next
  case (5 jm js rule arrPath arrItemPath n i data x x2)
  then show ?case by simp
next
  case (6 jm js rule arrPath arrItemPath n i data x x2)
  then show ?case using strIndex_bound[of arrItemPath "''.#''" x2] by simp
next
  case 7
  then show ?case by simp
qed


declare rangeOverArray.simps [simp del]
declare rangeLoop.simps [simp del]

fun mask :: "JsonMaskerImpl \<Rightarrow> ('d, 'e) Document \<Rightarrow> 'd \<Rightarrow> Rule list \<Rightarrow> 'e error + 'd" where
  "mask jm js data [] = Inr data"
| "mask jm js data (rule # rules) =
     (case (if sliceLevel rule = 0
            then maskSimplePath jm js data (Path rule) (Action rule)
            else case strIndex (Path rule) ''.#'' of
                   None \<Rightarrow> Inl InvalidJsonArrayPath
                 | Some idx \<Rightarrow>
                     rangeOverArray jm js data rule
                       (take (idx + 2) (Path rule)) (drop (idx + 2) (Path rule))) of
        Inl err \<Rightarrow> Inl err
      | Inr data' \<Rightarrow> mask jm js data' rules)"

definition Mask ::
  "JsonMaskerImpl \<Rightarrow> ('d, 'e) Document \<Rightarrow> 'd \<Rightarrow> StructMaskRules \<Rightarrow> 'e error + 'd" where
  "Mask jm js data smr = mask jm js data (Rules smr)"

subsection \<open>A concrete document\<close>

text \<open>
  Modelled from the spec: the document collaborator of section 6 (\<open>get\<close>,
  \<open>setRaw\<close>, \<open>delete\<close>, \<open>arrayLength\<close>), which the repository takes from the
  libraries gjson and sjson and does not contain. A document is a tree whose leaves
  keep the raw text of their value; \<open>render\<close> gives its compact serialisation. Paths
  are dot-separated keys and decimal array indices, with \<open>#\<close> as last segment for the
  length of an array; a missing location is "not found" for \<open>get\<close> and left alone
  by \<open>delete\<close>, and \<open>setRaw\<close> on a missing key of an object adds the key. Escapes,
  patterns and queries of the libraries' path language are not modelled (such paths
  are refused by \<open>setRaw\<close> and \<open>delete\<close> and not found by \<open>get\<close>). This instance
  is used for concrete runs only; every general statement below holds for all
  \<open>Document\<close>s.
\<close>

datatype json = JRaw string | JArr "json list" | JObj "(string \<times> json) list"

fun splitPath :: "string \<Rightarrow> string list" where
  "splitPath [] = [[]]"
| "splitPath (c # cs) =
     (if c = CHR ''.'' then [] # splitPath cs
      else case splitPath cs of
             [] \<Rightarrow> [[c]]
           | seg # rest \<Rightarrow> (c # seg) # rest)"

definition digitVal :: "char \<Rightarrow> nat option" where
  "digitVal c =
     (if 48 \<le> (of_char c :: nat) \<and> (of_char c :: nat) \<le> 57
      then Some ((of_char c :: nat) - 48) else None)"

fun parseDigits :: "nat \<Rightarrow> string \<Rightarrow> nat option" where
  "parseDigits acc [] = Some acc"
| "parseDigits acc (c # cs) =
     (case digitVal c of None \<Rightarrow> None | Some d \<Rightarrow> parseDigits (10 * acc + d) cs)"

definition parseIndex :: "string \<Rightarrow> nat option" where
  "parseIndex s = (if s = [] then None else parseDigits 0 s)"

fun joinWith :: "string \<Rightarrow> string list \<Rightarrow> string" where
  "joinWith sep [] = []"
| "joinWith sep [x] = x"
| "joinWith sep (x # y # ys) = x @ sep @ joinWith sep (y # ys)"

fun render :: "json \<Rightarrow> string" where
  "render (JRaw s) = s"
| "render (JArr xs) = ''['' @ joinWith '','' (map render xs) @ '']''"
| "render (JObj kvs) =
     ''{'' @ joinWith '','' (map (\<lambda>kv. quoted (fst kv) @ '':'' @ render (snd kv)) kvs) @ ''}''"

definition notFound :: Result where
  "notFound = \<lparr>Exists = False, Raw = [], IntVal = 0\<rparr>"

definition found :: "json \<Rightarrow> Result" where
  "found j =
     \<lparr>Exists = True, Raw = render j,
      IntVal = (case j of
                  JRaw s \<Rightarrow> (case parseIndex s of Some n \<Rightarrow> int n | None \<Rightarrow> 0)
                | _ \<Rightarrow> 0)\<rparr>"

fun child :: "json \<Rightarrow> string \<Rightarrow> json option" where
  "child (JObj kvs) k = map_of kvs k"
| "child (JArr xs) k =
     (case parseIndex k of
        None \<Rightarrow> None
      | Some i \<Rightarrow> if i < length xs then Some (xs ! i) else None)"
| "child (JRaw s) k = None"

fun jget :: "json \<Rightarrow> string list \<Rightarrow> Result" where
  "jget j [] = found j"
| "jget j (k # ks) =
     (case j of
        JArr xs \<Rightarrow>
          if k = ''#'' \<and> ks = []
          then \<lparr>Exists = True, Raw = Itoa (int (length xs)), IntVal = int (length xs)\<rparr>
          else (case child j k of None \<Rightarrow> notFound | Some c \<Rightarrow> jget c ks)
      | _ \<Rightarrow> (case child j k of None \<Rightarrow> notFound | Some c \<Rightarrow> jget c ks))"

fun build :: "string list \<Rightarrow> string \<Rightarrow> json" where
  "build [] raw = JRaw raw"
| "build (k # ks) raw =
     (case parseIndex k of
        Some n \<Rightarrow> JArr (replicate n (JRaw ''null'') @ [build ks raw])
      | None \<Rightarrow> JObj [(k, build ks raw)])"

fun updateKey :: "(string \<times> json) list \<Rightarrow> string \<Rightarrow> json \<Rightarrow> (string \<times> json) list" where
  "updateKey [] k v = []"
| "updateKey ((k', v') # kvs) k v =
     (if k' = k then (k', v) # kvs else (k', v') # updateKey kvs k v)"

fun removeKey :: "(string \<times> json) list \<Rightarrow> string \<Rightarrow> (string \<times> json) list" where
  "removeKey [] k = []"
| "removeKey ((k', v') # kvs) k = (if k' = k then kvs else (k', v') # removeKey kvs k)"

fun jset :: "json \<Rightarrow> string list \<Rightarrow> string \<Rightarrow> string + json" where
  "jset j [] raw = Inr (JRaw raw)"
| "jset j (k # ks) raw =
     (case j of
        JObj kvs \<Rightarrow>
          (case map_of kvs k of
             None \<Rightarrow> Inr (JObj ((k, build ks raw) # kvs))
           | Some c \<Rightarrow>
               (case jset c ks raw of
                  Inl e \<Rightarrow> Inl e
                | Inr c' \<Rightarrow> Inr (JObj (updateKey kvs k c'))))
      | JArr xs \<Rightarrow>
          (case parseIndex k of
             None \<Rightarrow> Inl ''cannot set array element for non-numeric key''
           | Some i \<Rightarrow>
               if i < length xs
               then (case jset (xs ! i) ks raw of
                       Inl e \<Rightarrow> Inl e
                     | Inr c' \<Rightarrow> Inr (JArr (xs[i := c'])))
               else Inr (JArr (xs @ replicate (i - length xs) (JRaw ''null'') @ [build ks raw])))
      | JRaw s \<Rightarrow> Inl ''json must be an object or array'')"

text \<open>
  \<open>delete\<close> leaves the document alone wherever the location is missing: a key that
  an object does not have, an index outside an array or a key that is no index, and
  anything below a leaf.
\<close>

fun jdel :: "json \<Rightarrow> string list \<Rightarrow> string + json" where
  "jdel j [] = Inr j"
| "jdel j (k # ks) =
     (case j of
        JObj kvs \<Rightarrow>
          (case map_of kvs k of
             None \<Rightarrow> Inr j
           | Some c \<Rightarrow>
               if ks = [] then Inr (JObj (removeKey kvs k))
               else (case jdel c ks of
                       Inl e \<Rightarrow> Inl e
                     | Inr c' \<Rightarrow> Inr (JObj (updateKey kvs k c'))))
      | JArr xs \<Rightarrow>
          (case parseIndex k of
             None \<Rightarrow> Inr j
           | Some i \<Rightarrow>
               if i < length xs
               then (if ks = [] then Inr (JArr (take i xs @ drop (i + 1) xs))
                     else (case jdel (xs ! i) ks of
                             Inl e \<Rightarrow> Inl e
                           | Inr c' \<Rightarrow> Inr (JArr (xs[i := c']))))
               else Inr j)
      | JRaw s \<Rightarrow> Inr j)"

definition isComplexPath :: "string \<Rightarrow> bool" where
  "isComplexPath p = list_ex (\<lambda>c. List.member ''|#@*?'' c) p"

definition treeDocument :: "(json, string) Document" where
  "treeDocument =
     \<lparr>GetBytes = (\<lambda>d p. jget d (splitPath p)),
      DeleteBytes = (\<lambda>d p.
         if p = [] then Inl ''path cannot be empty''
         else if isComplexPath p then Inl ''cannot delete value from a complex path''
         else jdel d (splitPath p)),
      SetRawBytes = (\<lambda>d p raw.
         if p = [] then Inl ''path cannot be empty''
         else if isComplexPath p then Inl ''cannot set value at a complex path''
         else jset d (splitPath p) raw)\<rparr>"


subsection \<open>Notions used in the statements\<close>

text \<open>
  The body of the loop of \<open>rangeOverArray\<close> at one element: \<open>path\<close> is the array
  path with the index in place of the wildcard.
\<close>

definition applyAt ::
  "JsonMaskerImpl \<Rightarrow> ('d, 'e) Document \<Rightarrow> Rule \<Rightarrow> string \<Rightarrow> 'd \<Rightarrow> string \<Rightarrow> 'e error + 'd" where
  "applyAt jm js rule arrItemPath data path =
     (if Action rule = ''-'' then lib (DeleteBytes js data (path @ arrItemPath))
      else case strIndex arrItemPath ''.#'' of
             None \<Rightarrow>
               (case funcs jm (Action rule) of
                  None \<Rightarrow> Inr data
                | Some maskFunc \<Rightarrow>
                    lib (SetRawBytes js data (path @ arrItemPath)
                           (maskFunc (Raw (GetBytes js data (path @ arrItemPath))))))
           | Some subArrIdx \<Rightarrow>
               rangeOverArray jm js data rule
                 (path @ take (subArrIdx + 2) arrItemPath)
                 (drop (subArrIdx + 2) arrItemPath))"

text \<open>Running a step over a list of addresses, in order, up to the first error.\<close>

fun inOrder :: "('d \<Rightarrow> 'a \<Rightarrow> 'x + 'd) \<Rightarrow> 'd \<Rightarrow> 'a list \<Rightarrow> 'x + 'd" where
  "inOrder step data [] = Inr data"
| "inOrder step data (a # as) =
     (case step data a of Inl err \<Rightarrow> Inl err | Inr data' \<Rightarrow> inOrder step data' as)"

text \<open>
  A rule written by a caller of the package, \<open>Rule{Path: p, Action: a}\<close>: the
  unexported \<open>sliceLevel\<close> cannot be named outside the package and has Go's zero value.
\<close>

definition callerRule :: "string \<Rightarrow> string \<Rightarrow> Rule" where
  "callerRule p a = \<lparr>Path = p, Action = a, sliceLevel = 0\<rparr>"

text \<open>
  A field is flat when the walk does not descend into it: it is tagged for deletion,
  or what is left of its type after the pointers and one level of slice or array is
  of a basic kind.
\<close>

definition flatField :: "JsonMaskerImpl \<Rightarrow> sfield \<Rightarrow> bool" where
  "flatField jm sf =
     (let val0 = derefPtr (Type sf);
          val1 = (if isSliceOrArray val0 then Elem val0 else val0)
      in snd (parseFieldTag jm sf) = ''-'' \<or> \<not> isComposite val1)"

text \<open>
  The wire name of a field, what is left of a type after the pointers and one level of
  slice or array, and whether the field is a slice or an array.
\<close>

definition wireName :: "JsonMaskerImpl \<Rightarrow> sfield \<Rightarrow> string" where
  "wireName jm sf = fst (parseFieldTag jm sf)"

definition unwrapped :: "gotype \<Rightarrow> gotype" where
  "unwrapped t = (let val0 = derefPtr t in if isSliceOrArray val0 then Elem val0 else val0)"

definition isSliceField :: "sfield \<Rightarrow> bool" where
  "isSliceField sf = isSliceOrArray (derefPtr (Type sf))"

text \<open>A name that is not empty and has no path separator in it.\<close>

definition dotFree :: "string \<Rightarrow> bool" where
  "dotFree n = (n \<noteq> [] \<and> CHR ''.'' \<notin> set n)"

lemma size_unwrapped: "size (unwrapped t) \<le> size t"
  using size_derefPtr[of t] size_Elem[of "derefPtr t"]
  by (auto simp: unwrapped_def Let_def)

lemma size_list_member: "sf \<in> set fs \<Longrightarrow> size sf < Suc (size_list size fs)"
  by (induction fs) auto

lemma size_reached_struct:
  assumes "unwrapped (Type sf) = Struct cs"
  shows "Suc (size_list size cs) < size sf"
proof -
  have "size (Struct cs) \<le> size (Type sf)"
    using assms size_unwrapped[of "Type sf"] by simp
  then show ?thesis using size_Type[of sf] by simp
qed

lemma size_reached_slice:
  assumes "unwrapped (Type sf) = Slice t" "derefPtr (fst (sliceLoop t n)) = Struct cs"
  shows "Suc (size_list size cs) < size sf"
proof -
  have "size (Slice t) \<le> size (Type sf)"
    using assms(1) size_unwrapped[of "Type sf"] by simp
  moreover have "size (Struct cs) \<le> size t"
    using assms(2) size_sliceLoop[of t n] size_derefPtr[of "fst (sliceLoop t n)"] by simp
  ultimately show ?thesis using size_Type[of sf] by simp
qed

text \<open>
  A well-nested record. At every level the exported fields have pairwise distinct wire
  names without separator, and every exported field is flat, or a record or an array
  or slice (of slices) of records that are well nested in turn, or another composite
  (a map; an array or slice of pointers, arrays or maps). A record that is not the
  element of an array or slice, and an array or slice of pointers, arrays or maps, are
  allowed at the top level only (\<open>atTop\<close>).
\<close>

function okRecord :: "JsonMaskerImpl \<Rightarrow> bool \<Rightarrow> sfield list \<Rightarrow> bool"
  and okField :: "JsonMaskerImpl \<Rightarrow> bool \<Rightarrow> sfield \<Rightarrow> bool"
where
  "okRecord jm atTop flds =
     (distinct (map (wireName jm) (filter IsExported flds))
      \<and> list_all (\<lambda>sf. \<not> IsExported sf \<or> (dotFree (wireName jm sf) \<and> okField jm atTop sf)) flds)"
| "okField jm atTop sf =
     (flatField jm sf
      \<or> (case unwrapped (Type sf) of
            Struct cs \<Rightarrow> (isSliceField sf \<or> atTop) \<and> okRecord jm False cs
          | Slice t \<Rightarrow>
              (case derefPtr (fst (sliceLoop (Slice t) [])) of
                 Struct cs \<Rightarrow> okRecord jm False cs
               | _ \<Rightarrow> True)
          | _ \<Rightarrow> atTop \<or> \<not> isSliceField sf))"
  by pat_completeness auto
termination
  apply (relation "measure (case_sum (\<lambda>(jm, b, flds). Suc (size_list size flds)) (\<lambda>(jm, b, sf). size sf))")
  apply simp
  apply (auto intro: size_list_member size_reached_struct size_reached_slice)
  done

declare okRecord.simps [simp del]
declare okField.simps [simp del]

text \<open>
  Addresses below a field: \<open>under Q n q\<close> says that the path \<open>q\<close> is the address
  \<open>joinPath Q n\<close> or continues it with a separator; \<open>segAfter Q q\<close> is the segment
  of \<open>q\<close> that follows the parent \<open>Q\<close>.
\<close>

definition prefixOf :: "string \<Rightarrow> string" where
  "prefixOf Q = (if Q = [] then [] else Q @ ''.'')"

definition under :: "string \<Rightarrow> string \<Rightarrow> string \<Rightarrow> bool" where
  "under Q n q = (q = joinPath Q n \<or> HasPrefix q (joinPath Q n @ ''.''))"

definition segAfter :: "string \<Rightarrow> string \<Rightarrow> string" where
  "segAfter Q q = takeWhile (\<lambda>c. c \<noteq> CHR ''.'') (drop (length (prefixOf Q)) q)"

definition parentOf :: "JsonMaskerImpl \<Rightarrow> sfield \<Rightarrow> string \<Rightarrow> string" where
  "parentOf jm sf Q =
     (if isSliceField sf then joinPath Q (wireName jm sf @ ''.#'') else wireName jm sf)"

text \<open>
  A wildcard rule expands on a document when every array path that \<open>rangeOverArray\<close>
  asks for exists: the path \<open>arrPath\<close> itself and, when the item path has a further
  wildcard, the next array path below each of the elements. The addresses are formed
  as \<open>rangeOverArray\<close> forms them.
\<close>

function expandsOK :: "('d, 'e) Document \<Rightarrow> 'd \<Rightarrow> string \<Rightarrow> string \<Rightarrow> bool" where
  "expandsOK js data arrPath arrItemPath =
     (let arr = GetBytes js data arrPath
      in Exists arr \<and>
         (case strIndex arrItemPath ''.#'' of
            None \<Rightarrow> True
          | Some subArrIdx \<Rightarrow>
              list_all
                (\<lambda>i. expandsOK js data
                        (ReplaceAll arrPath ''#'' (Itoa (int i)) @ take (subArrIdx + 2) arrItemPath)
                        (drop (subArrIdx + 2) arrItemPath))
                [0..<nat (IntVal arr)]))"
  by pat_completeness auto
termination
proof (relation "measure (\<lambda>(js, data, arrPath, arrItemPath). length arrItemPath)", goal_cases)
  case 1
  show ?case by simp
next
  case (2 js data arrPath arrItemPath arr subArrIdx i)
  then show ?case using strIndex_bound[of arrItemPath "''.#''" subArrIdx] by simp
qed

declare expandsOK.simps [simp del]

text \<open>
  The error of a rule whose expansion fails: no error for a rule with
  \<open>sliceLevel = 0\<close>, \<open>invalid json array path\<close> for a path without wildcard, and
  \<open>json array not found\<close> when the rule does not expand.
\<close>

definition expansionError :: "('d, 'e) Document \<Rightarrow> 'd \<Rightarrow> Rule \<Rightarrow> 'e error option" where
  "expansionError js data rule =
     (if sliceLevel rule = 0 then None
      else case strIndex (Path rule) ''.#'' of
             None \<Rightarrow> Some InvalidJsonArrayPath
           | Some idx \<Rightarrow>
               if expandsOK js data (take (idx + 2) (Path rule)) (drop (idx + 2) (Path rule))
               then None else Some JsonArrayNotFound)"

text \<open>
  An array is missing during the expansion of a rule, started at \<open>arrPath\<close> with the
  item path \<open>arrItemPath\<close> on the document \<open>data\<close>: either \<open>arrPath\<close> itself does
  not exist (\<open>here\<close>), or it exists, the rule is no deletion, the item path has a
  further wildcard, the elements before some element \<open>i\<close> have been expanded without
  error, and an array is missing during the expansion below element \<open>i\<close> on
  the document that they left (\<open>below\<close>).
\<close>

inductive missingArray ::
  "JsonMaskerImpl \<Rightarrow> ('d, 'e) Document \<Rightarrow> Rule \<Rightarrow> 'd \<Rightarrow> string \<Rightarrow> string \<Rightarrow> bool"
  for jm :: JsonMaskerImpl and js :: "('d, 'e) Document" and rule :: Rule
where
  here:
    "\<not> Exists (GetBytes js data arrPath) \<Longrightarrow> missingArray jm js rule data arrPath arrItemPath"
| below:
    "Exists (GetBytes js data arrPath) \<Longrightarrow>
     Action rule \<noteq> ''-'' \<Longrightarrow>
     strIndex arrItemPath ''.#'' = Some subArrIdx \<Longrightarrow>
     int i < IntVal (GetBytes js data arrPath) \<Longrightarrow>
     inOrder (\<lambda>d path. rangeOverArray jm js d rule
                          (path @ take (subArrIdx + 2) arrItemPath)
                          (drop (subArrIdx + 2) arrItemPath))
       data (map (\<lambda>j. ReplaceAll arrPath ''#'' (Itoa (int j))) [0..<i]) = Inr data' \<Longrightarrow>
     missingArray jm js rule data'
       (ReplaceAll arrPath ''#'' (Itoa (int i)) @ take (subArrIdx + 2) arrItemPath)
       (drop (subArrIdx + 2) arrItemPath) \<Longrightarrow>
     missingArray jm js rule data arrPath arrItemPath"

text \<open>
  A plain path: not empty and without the characters that make a path complex for the
  library, the wildcard \<open>#\<close> among them.
\<close>

definition plainPath :: "string \<Rightarrow> bool" where
  "plainPath p = (p \<noteq> [] \<and> \<not> isComplexPath p)"

subsection \<open>Types and documents of the tests\<close>

text \<open>
  The struct types of \<open>jsonmask_test.go\<close> (\<open>TestHiddenAttr\<close>,
  \<open>TestStructMaskAttr\<close>, \<open>TestStruct.Matrix\<close>), further types in their style, and
  documents to run the masker on.
\<close>

definition TestHiddenAttr :: gotype where
  "TestHiddenAttr = Struct
     [Field ''ID'' True [(''json'', ''id'')] Basic,
      Field ''Amount'' True [(''json'', ''amount''), (''mask'', ''-'')] Basic]"

definition TestStructMaskAttr :: gotype where
  "TestStructMaskAttr = Struct
     [Field ''ID'' True [(''json'', '',omitempty'')] Basic,
      Field ''Currency'' True [(''json'', ''currency''), (''mask'', ''upper'')] Basic,
      Field ''MinorUnits'' True [(''json'', ''minorUnits''), (''mask'', ''zero'')] Basic,
      Field ''flag'' False [] Basic]"

definition MatrixID :: sfield where
  "MatrixID = Field ''ID'' True [(''json'', ''id'')] Basic"

definition MatrixItems :: sfield where
  "MatrixItems = Field ''Items'' True [(''json'', ''items'')] (Slice (Slice TestStructMaskAttr))"

definition MatrixHiddenItems :: sfield where
  "MatrixHiddenItems =
     Field ''HiddenItems'' True [(''json'', ''hiddenItems''), (''mask'', ''-'')]
       (Slice (Slice TestHiddenAttr))"

definition Matrix :: gotype where
  "Matrix = Struct [MatrixID, MatrixItems, MatrixHiddenItems]"

definition OptionalItems :: gotype where
  "OptionalItems = Struct
     [Field ''ID'' True [(''json'', ''id'')] Basic,
      Field ''Items'' True [(''json'', ''items,omitempty'')]
        (Slice (Struct [Field ''Currency'' True [(''json'', ''currency''), (''mask'', ''hash'')]
                          Basic]))]"

definition SameWireName :: gotype where
  "SameWireName = Struct
     [Field ''Work'' True [(''json'', ''email''), (''mask'', ''email'')] Basic,
      Field ''Home'' True [(''json'', ''email''), (''mask'', ''lower'')] Basic]"

definition Geo :: gotype where
  "Geo = Struct [Field ''City'' True [(''json'', ''city''), (''mask'', ''upper'')] Basic]"

definition Addresses :: gotype where
  "Addresses = Struct
     [Field ''Home'' True [(''json'', ''home'')] (Struct [Field ''Geo'' True [(''json'', ''geo'')] Geo]),
      Field ''Work'' True [(''json'', ''work'')] (Struct [Field ''Geo'' True [(''json'', ''geo'')] Geo])]"

definition Ledger :: gotype where
  "Ledger = Struct
     [Field ''ID'' True [(''json'', ''id'')] Basic,
      Field ''Owner'' True [(''json'', ''owner'')]
        (Struct [Field ''Name'' True [(''json'', ''name''), (''mask'', ''initialChar'')] Basic]),
      Field ''Items'' True [(''json'', ''items'')]
        (Slice (Struct
           [Field ''Currency'' True [(''json'', ''currency''), (''mask'', ''upper'')] Basic,
            Field ''Balances'' True [(''json'', ''balances'')]
              (Slice (Struct
                 [Field ''Currency'' True [(''json'', ''currency''), (''mask'', ''upper'')]
                    Basic]))]))]"

definition LedgerFields :: "sfield list" where
  "LedgerFields = (case Ledger of Struct flds \<Rightarrow> flds | _ \<Rightarrow> [])"

definition twoItems :: json where
  "twoItems = JObj [(''items'', JArr [JObj [(''currency'', JRaw (quoted ''usd''))],
                                      JObj [(''currency'', JRaw (quoted ''eur''))]])]"

definition twoItemsMasked :: json where
  "twoItemsMasked = JObj [(''items'', JArr [JObj [(''currency'', JRaw (quoted ''USD''))],
                                            JObj [(''currency'', JRaw (quoted ''EUR''))]])]"

definition matrixDoc :: json where
  "matrixDoc = JObj
     [(''id'', JRaw ''1''),
      (''items'', JArr
         [JArr [JObj [(''ID'', JRaw ''1''), (''currency'', JRaw (quoted ''usd'')),
                      (''minorUnits'', JRaw ''5'')]],
          JArr [JObj [(''ID'', JRaw ''3''), (''currency'', JRaw (quoted ''czk'')),
                      (''minorUnits'', JRaw ''7'')]]]),
      (''hiddenItems'', JArr [JArr [JObj [(''id'', JRaw ''1''), (''amount'', JRaw ''100'')]]])]"

definition matrixMasked :: json where
  "matrixMasked = JObj
     [(''id'', JRaw ''1''),
      (''items'', JArr
         [JArr [JObj [(''ID'', JRaw ''1''), (''currency'', JRaw (quoted ''USD'')),
                      (''minorUnits'', JRaw ''0'')]],
          JArr [JObj [(''ID'', JRaw ''3''), (''currency'', JRaw (quoted ''CZK'')),
                      (''minorUnits'', JRaw ''0'')]]])]"

definition idOnly :: json where
  "idOnly = JObj [(''id'', JRaw ''1'')]"

definition currencyRule :: Rule where
  "currencyRule = \<lparr>Path = ''items.#.currency'', Action = ''upper'', sliceLevel = 1\<rparr>"


text \<open>
  A matrix of records with a field tagged for deletion, where the matrix itself is not
  tagged; a slice whose wire name contains the wildcard character; and a ledger
  whose second item has no \<open>balances\<close>.
\<close>

definition NestedHidden :: gotype where
  "NestedHidden = Struct
     [Field ''Items'' True [(''json'', ''items'')] (Slice (Slice TestHiddenAttr))]"

definition nestedHiddenDoc :: json where
  "nestedHiddenDoc =
     JObj [(''items'', JArr [JArr [JObj [(''id'', JRaw ''1''), (''amount'', JRaw ''100'')]]])]"

definition HashName :: gotype where
  "HashName = Struct
     [Field ''Tags'' True [(''json'', ''a#b'')]
        (Slice (Struct [Field ''C'' True [(''json'', ''c''), (''mask'', ''null'')] Basic]))]"

definition hashNameDoc :: json where
  "hashNameDoc = JObj [(''a#b'', JArr [JObj [(''c'', JRaw (quoted ''x''))]])]"

definition matrixUpper :: json where
  "matrixUpper = JObj
     [(''id'', JRaw ''1''),
      (''items'', JArr
         [JArr [JObj [(''ID'', JRaw ''1''), (''currency'', JRaw (quoted ''USD'')),
                      (''minorUnits'', JRaw ''5'')]],
          JArr [JObj [(''ID'', JRaw ''3''), (''currency'', JRaw (quoted ''CZK'')),
                      (''minorUnits'', JRaw ''7'')]]]),
      (''hiddenItems'', JArr [JArr [JObj [(''id'', JRaw ''1''), (''amount'', JRaw ''100'')]]])]"

definition matrixCurrencyRule :: Rule where
  "matrixCurrencyRule = \<lparr>Path = ''items.#.#.currency'', Action = ''upper'', sliceLevel = 2\<rparr>"

definition ledgerDoc :: "string \<Rightarrow> string \<Rightarrow> string \<Rightarrow> json" where
  "ledgerDoc idv c0 c1 = JObj
     [(''id'', JRaw idv),
      (''items'', JArr
         [JObj [(''currency'', JRaw (quoted ''usd'')),
                (''balances'', JArr [JObj [(''currency'', JRaw (quoted c0))],
                                     JObj [(''currency'', JRaw (quoted c1))]])],
          JObj [(''currency'', JRaw (quoted ''czk''))]])]"

definition balancesRule :: Rule where
  "balancesRule = \<lparr>Path = ''items.#.balances.#.currency'', Action = ''upper'', sliceLevel = 2\<rparr>"

section \<open>Lemmas about the iteration and the string functions\<close>

lemma lib_not_own:
  "lib r \<noteq> Inl InvalidJsonArrayPath" "lib r \<noteq> Inl JsonArrayNotFound"
  by (cases r; simp add: lib_def)+

lemma Count_pos_strIndex: "0 < Count s sub \<Longrightarrow> sub \<noteq> [] \<Longrightarrow> strIndex s sub \<noteq> None"
  by (subst (asm) Count.simps) (auto split: option.splits)

lemma rangeOverArray_unfold:
  "rangeOverArray jm js data rule arrPath arrItemPath =
     (if \<not> Exists (GetBytes js data arrPath) then Inl JsonArrayNotFound
      else rangeLoop jm js rule arrPath arrItemPath (IntVal (GetBytes js data arrPath)) 0 data)"
  by (subst rangeOverArray.simps) (simp add: Let_def)

lemma rangeLoop_step:
  "rangeLoop jm js rule arrPath arrItemPath n i data =
     (if int i < n
      then (case applyAt jm js rule arrItemPath data (ReplaceAll arrPath ''#'' (Itoa (int i))) of
              Inl err \<Rightarrow> Inl err
            | Inr data' \<Rightarrow> rangeLoop jm js rule arrPath arrItemPath n (i + 1) data')
      else Inr data)"
  by (subst rangeLoop.simps) (simp add: applyAt_def Let_def split: option.splits)

lemma rangeLoop_never_invalid:
  assumes "\<And>d path. applyAt jm js rule arrItemPath d path \<noteq> Inl InvalidJsonArrayPath"
  shows "rangeLoop jm js rule arrPath arrItemPath n i data \<noteq> Inl InvalidJsonArrayPath"
proof (induction "nat n - i" arbitrary: i data)
  case 0
  then have "\<not> int i < n" by linarith
  then show ?case by (subst rangeLoop_step) simp
next
  case (Suc k)
  then have lt: "int i < n" and k: "k = nat n - (i + 1)" by linarith+
  show ?case
  proof (cases "applyAt jm js rule arrItemPath data (ReplaceAll arrPath ''#'' (Itoa (int i)))")
    case (Inl e)
    with assms have "e \<noteq> InvalidJsonArrayPath" by metis
    with Inl lt show ?thesis by (subst rangeLoop_step) simp
  next
    case (Inr d)
    with lt Suc.hyps(1)[OF k] show ?thesis by (subst rangeLoop_step) simp
  qed
qed

lemma rangeOverArray_never_invalid:
  "rangeOverArray jm js data rule arrPath arrItemPath \<noteq> Inl InvalidJsonArrayPath"
proof (induction arrItemPath arbitrary: data arrPath rule: length_induct)
  case (1 item)
  have body: "applyAt jm js rule item d path \<noteq> Inl InvalidJsonArrayPath" for d path
  proof (cases "strIndex item ''.#''")
    case None
    then show ?thesis
      by (simp add: applyAt_def lib_not_own split: option.splits)
  next
    case (Some k)
    then have "length (drop (k + 2) item) < length item"
      using strIndex_bound[of item "''.#''" k] by simp
    with 1 have "rangeOverArray jm js d rule (path @ take (k + 2) item) (drop (k + 2) item)
        \<noteq> Inl InvalidJsonArrayPath"
      by blast
    with Some show ?thesis
      by (simp add: applyAt_def lib_not_own)
  qed
  show ?case
    using rangeLoop_never_invalid[of jm js rule item, OF body]
    by (simp add: rangeOverArray_unfold)
qed

lemma maskSimplePath_not_own:
  "maskSimplePath jm js data p a \<noteq> Inl InvalidJsonArrayPath"
  "maskSimplePath jm js data p a \<noteq> Inl JsonArrayNotFound"
  by (auto simp: maskSimplePath_def Let_def lib_not_own split: option.splits)

lemma mask_never_invalid:
  "\<forall>r \<in> set rules. sliceLevel r = int (Count (Path r) ''.#'') \<Longrightarrow>
   mask jm js data rules \<noteq> Inl InvalidJsonArrayPath"
proof (induction rules arbitrary: data)
  case Nil
  then show ?case by simp
next
  case (Cons r rules)
  show ?case
  proof (cases "sliceLevel r = 0")
    case True
    then show ?thesis
      using Cons maskSimplePath_not_own(1)[of jm js data "Path r" "Action r"]
      by (auto split: sum.splits)
  next
    case False
    with Cons.prems have "0 < Count (Path r) ''.#''" by simp
    then obtain idx where "strIndex (Path r) ''.#'' = Some idx"
      using Count_pos_strIndex[of "Path r" "''.#''"] by auto
    then show ?thesis
      using False Cons rangeOverArray_never_invalid[of jm js data r]
      by (auto split: sum.splits)
  qed
qed

lemma strIndex_here:
  assumes "sub \<noteq> []"
  shows "strIndex (sub @ rest) sub = Some 0"
proof -
  obtain c cs where eq: "sub @ rest = c # cs"
    using assms by (cases sub) auto
  have "HasPrefix (sub @ rest) sub" by (simp add: HasPrefix_def)
  then show ?thesis unfolding eq by simp
qed

lemma strIndex_hash:
  "CHR ''#'' \<notin> set p \<Longrightarrow> strIndex (p @ ''#'' @ rest) ''#'' = Some (length p)"
proof (induction p)
  case Nil
  show ?case using strIndex_here[of "''#''" rest] by simp
next
  case (Cons c p)
  then have "\<not> HasPrefix (c # p @ ''#'' @ rest) ''#''"
    by (auto simp: HasPrefix_def)
  with Cons show ?case by simp
qed

lemma strIndex_wildcard:
  "CHR ''#'' \<notin> set p \<Longrightarrow> strIndex (p @ ''.#'' @ rest) ''.#'' = Some (length p)"
proof (induction p)
  case Nil
  show ?case using strIndex_here[of "''.#''" rest] by simp
next
  case (Cons c p)
  then have "\<not> HasPrefix (c # p @ ''.#'' @ rest) ''.#''"
    by (cases p) (auto simp: HasPrefix_def)
  with Cons show ?case by simp
qed

lemma ReplaceAll_wildcard:
  assumes "CHR ''#'' \<notin> set p"
  shows "ReplaceAll (p @ ''.#'') ''#'' new = p @ ''.'' @ new"
proof -
  have "strIndex ((p @ ''.'') @ ''#'' @ []) ''#'' = Some (length (p @ ''.''))"
    using assms by (intro strIndex_hash) simp
  then have idx: "strIndex (p @ ''.#'') ''#'' = Some (length p + 1)" by simp
  have nil: "ReplaceAll [] ''#'' new = []"
    by (subst ReplaceAll.simps) simp
  show ?thesis
    by (subst ReplaceAll.simps) (simp add: idx nil)
qed

lemma rangeLoop_inOrder:
  "rangeLoop jm js rule arrPath arrItemPath n i data =
     inOrder (applyAt jm js rule arrItemPath) data
       (map (\<lambda>j. ReplaceAll arrPath ''#'' (Itoa (int j))) [i..<nat n])"
proof (induction "nat n - i" arbitrary: i data)
  case 0
  then have "\<not> int i < n" "[i..<nat n] = []" by simp_all
  then show ?case by (subst rangeLoop_step) simp
next
  case (Suc k)
  then have lt: "int i < n" and k: "k = nat n - Suc i" by linarith+
  from lt have upt: "[i..<nat n] = i # [Suc i..<nat n]"
    by (simp add: upt_conv_Cons)
  show ?case
    by (subst rangeLoop_step) (simp add: lt upt Suc.hyps(1)[OF k] split: sum.splits)
qed

lemma mask_append:
  "mask jm js data (xs @ ys) =
     (case mask jm js data xs of Inl err \<Rightarrow> Inl err | Inr data' \<Rightarrow> mask jm js data' ys)"
  by (induction xs arbitrary: data) (auto split: sum.splits)


lemma PrefixFn_first4:
  "PrefixFn 4 False s = Some (first4 s)"
  "first4 s = (if length s \<le> 6 then s else take 5 s @ [dq])"
  by (simp_all add: first4_def PrefixFn_def wrap64_def)

lemma applyAt_last:
  "strIndex arrItemPath ''.#'' = None \<Longrightarrow>
   applyAt jm js rule arrItemPath =
     (\<lambda>d path. maskSimplePath jm js d (path @ arrItemPath) (Action rule))"
  by (simp add: applyAt_def maskSimplePath_def Let_def fun_eq_iff split: option.splits)

lemma applyAt_descend:
  "Action rule \<noteq> ''-'' \<Longrightarrow> strIndex arrItemPath ''.#'' = Some k \<Longrightarrow>
   applyAt jm js rule arrItemPath =
     (\<lambda>d path. rangeOverArray jm js d rule (path @ take (k + 2) arrItemPath)
                  (drop (k + 2) arrItemPath))"
  by (simp add: applyAt_def fun_eq_iff)

lemma applyAt_delete:
  "Action rule = ''-'' \<Longrightarrow>
   applyAt jm js rule arrItemPath = (\<lambda>d path. lib (DeleteBytes js d (path @ arrItemPath)))"
  by (simp add: applyAt_def fun_eq_iff)

lemma inOrder_guard:
  "inOrder (\<lambda>d a. if P d a then Inr d else Inl e) data as =
     (if list_all (P data) as then Inr data else Inl e)"
  by (induction as) simp_all

lemma inOrder_append:
  "inOrder step data (xs @ ys) =
     (case inOrder step data xs of Inl err \<Rightarrow> Inl err | Inr data' \<Rightarrow> inOrder step data' ys)"
  by (induction xs arbitrary: data) (auto split: sum.splits)

lemma rangeOverArray_unregistered_eq:
  assumes "Action rule \<noteq> ''-''" "funcs jm (Action rule) = None"
  shows "rangeOverArray jm js data rule arrPath arrItemPath =
           (if expandsOK js data arrPath arrItemPath then Inr data else Inl JsonArrayNotFound)"
proof (induction arrItemPath arbitrary: data arrPath rule: length_induct)
  case (1 item)
  show ?case
  proof (cases "strIndex item ''.#''")
    case None
    then have body: "applyAt jm js rule item = (\<lambda>d a. if True then Inr d else Inl JsonArrayNotFound)"
      using assms by (simp add: applyAt_def fun_eq_iff)
    have ok: "expandsOK js data arrPath item = Exists (GetBytes js data arrPath)"
      using None by (subst expandsOK.simps) (simp add: Let_def)
    show ?thesis
      unfolding rangeOverArray_unfold rangeLoop_inOrder body inOrder_guard ok
      by (simp add: list_all_iff)
  next
    case (Some k)
    then have less: "length (drop (k + 2) item) < length item"
      using strIndex_bound[of item "''.#''" k] by simp
    have body: "applyAt jm js rule item =
        (\<lambda>d a. if expandsOK js d (a @ take (k + 2) item) (drop (k + 2) item)
                then Inr d else Inl JsonArrayNotFound)"
      using assms Some 1[rule_format, OF less] by (simp add: applyAt_def fun_eq_iff)
    have ok: "expandsOK js data arrPath item =
        (Exists (GetBytes js data arrPath) \<and>
         list_all (\<lambda>a. expandsOK js data (a @ take (k + 2) item) (drop (k + 2) item))
           (map (\<lambda>j. ReplaceAll arrPath ''#'' (Itoa (int j)))
              [0..<nat (IntVal (GetBytes js data arrPath))]))"
      using Some by (subst expandsOK.simps) (simp add: Let_def list_all_iff)
    show ?thesis
      unfolding rangeOverArray_unfold rangeLoop_inOrder body inOrder_guard ok
      by simp
  qed
qed

lemma case_map_filter_Cons:
  "(case List.map_filter f (x # xs) of [] \<Rightarrow> a | e # es \<Rightarrow> b e) =
     (case f x of None \<Rightarrow> (case List.map_filter f xs of [] \<Rightarrow> a | e # es \<Rightarrow> b e)
               | Some e \<Rightarrow> b e)"
  by (simp add: List.map_filter_simps split: option.splits)

lemma mask_unregistered:
  assumes "\<forall>r \<in> set rules. Action r \<noteq> ''-'' \<and> funcs jm (Action r) = None"
  shows "mask jm js data rules =
           (case List.map_filter (expansionError js data) rules of
              [] \<Rightarrow> Inr data | err # errs \<Rightarrow> Inl err)"
  using assms
proof (induction rules)
  case Nil
  show ?case by (simp add: List.map_filter_simps)
next
  case (Cons r rules)
  then have r: "Action r \<noteq> ''-''" "funcs jm (Action r) = None" by simp_all
  from Cons have IH: "mask jm js data rules =
           (case List.map_filter (expansionError js data) rules of
              [] \<Rightarrow> Inr data | err # errs \<Rightarrow> Inl err)" by simp
  show ?case
  proof (cases "sliceLevel r = 0")
    case True
    with r have "mask jm js data (r # rules) = mask jm js data rules"
      by (simp add: maskSimplePath_def)
    moreover from True have "expansionError js data r = None"
      by (simp add: expansionError_def)
    ultimately show ?thesis
      using IH by (simp add: case_map_filter_Cons)
  next
    case False
    show ?thesis
    proof (cases "strIndex (Path r) ''.#''")
      case None
      with False have "expansionError js data r = Some InvalidJsonArrayPath"
        by (simp add: expansionError_def)
      with False None show ?thesis
        by (simp add: case_map_filter_Cons)
    next
      case (Some idx)
      show ?thesis
      proof (cases "expandsOK js data (take (idx + 2) (Path r)) (drop (idx + 2) (Path r))")
        case True
        with False Some have "expansionError js data r = None"
          by (simp add: expansionError_def)
        with False Some True IH show ?thesis
          by (simp add: case_map_filter_Cons rangeOverArray_unregistered_eq[OF r])
      next
        case no: False
        with False Some have "expansionError js data r = Some JsonArrayNotFound"
          by (simp add: expansionError_def)
        with False Some no show ?thesis
          by (simp add: case_map_filter_Cons rangeOverArray_unregistered_eq[OF r])
      qed
    qed
  qed
qed

lemma missingArray_error:
  "missingArray jm js rule data arrPath arrItemPath \<Longrightarrow>
   rangeOverArray jm js data rule arrPath arrItemPath = Inl JsonArrayNotFound"
proof (induction rule: missingArray.induct)
  case (here data arrPath arrItemPath)
  then show ?case by (simp add: rangeOverArray_unfold)
next
  case (below data arrPath arrItemPath subArrIdx i data')
  let ?n = "nat (IntVal (GetBytes js data arrPath))"
  let ?addr = "\<lambda>j. ReplaceAll arrPath ''#'' (Itoa (int j))"
  from below.hyps(4) have "i < ?n" by linarith
  then have upt: "[0..<?n] = [0..<i] @ i # [Suc i..<?n]"
    by (metis le0 upt_add_eq_append upt_conv_Cons le_add_diff_inverse less_imp_le_nat)
  let ?step = "\<lambda>d path. rangeOverArray jm js d rule
      (path @ take (subArrIdx + 2) arrItemPath) (drop (subArrIdx + 2) arrItemPath)"
  have "rangeOverArray jm js data rule arrPath arrItemPath =
      inOrder (applyAt jm js rule arrItemPath) data (map ?addr [0..<?n])"
    using below.hyps(1) by (subst rangeOverArray_unfold) (simp add: rangeLoop_inOrder)
  also have "\<dots> = inOrder ?step data (map ?addr [0..<i] @ ?addr i # map ?addr [Suc i..<?n])"
    unfolding applyAt_descend[OF below.hyps(2,3)] by (subst upt) simp
  also have "\<dots> = Inl JsonArrayNotFound"
    unfolding inOrder_append below.hyps(5) using below.IH by simp
  finally show ?case .
qed

section \<open>Lemmas about the tree document\<close>

lemma map_of_updateKey_same:
  "map_of kvs k = Some c \<Longrightarrow> map_of (updateKey kvs k c') k = Some c'"
  by (induction kvs) (auto split: if_splits)

lemma updateKey_same:
  "map_of kvs k = Some c \<Longrightarrow> updateKey kvs k c = kvs"
  by (induction kvs) (auto split: if_splits)

lemma parseIndex_hash: "parseIndex ''#'' = None"
  by code_simp

lemma jget_build: "jget (build ks raw) ks = found (JRaw raw)"
proof (induction ks)
  case Nil
  show ?case by simp
next
  case (Cons k ks)
  show ?case
  proof (cases "parseIndex k")
    case None
    with Cons show ?thesis by simp
  next
    case (Some n)
    then have "k \<noteq> ''#''" using parseIndex_hash by auto
    with Some Cons show ?thesis by (simp add: nth_append)
  qed
qed

lemma jget_jset: "jset d ks raw = Inr d' \<Longrightarrow> jget d' ks = found (JRaw raw)"
proof (induction ks arbitrary: d d')
  case Nil
  then show ?case by auto
next
  case (Cons k ks)
  show ?case
  proof (cases d)
    case (JRaw s)
    with Cons.prems show ?thesis by simp
  next
    case (JObj kvs)
    show ?thesis
    proof (cases "map_of kvs k")
      case None
      with JObj Cons.prems have "d' = JObj ((k, build ks raw) # kvs)" by auto
      then show ?thesis by (simp add: jget_build)
    next
      case (Some c)
      with JObj Cons.prems obtain c' where c': "jset c ks raw = Inr c'"
        and d': "d' = JObj (updateKey kvs k c')"
        by (auto split: sum.splits)
      from Cons.IH[OF c'] Some show ?thesis
        by (simp add: d' map_of_updateKey_same)
    qed
  next
    case (JArr xs)
    with Cons.prems obtain i where i: "parseIndex k = Some i"
      by (auto split: option.splits)
    then have nh: "k \<noteq> ''#''" using parseIndex_hash by auto
    show ?thesis
    proof (cases "i < length xs")
      case True
      with JArr i Cons.prems obtain c' where c': "jset (xs ! i) ks raw = Inr c'"
        and d': "d' = JArr (xs[i := c'])"
        by (auto split: sum.splits)
      from Cons.IH[OF c'] True i nh show ?thesis
        by (simp add: d')
    next
      case False
      with JArr i Cons.prems
      have d': "d' = JArr (xs @ replicate (i - length xs) (JRaw ''null'') @ [build ks raw])"
        by auto
      from False i nh show ?thesis
        by (simp add: d' nth_append jget_build)
    qed
  qed
qed

lemma jget_missing: "\<not> Exists (jget d ks) \<Longrightarrow> jget d ks = notFound"
proof (induction ks arbitrary: d)
  case Nil
  then show ?case by (simp add: found_def)
next
  case (Cons k ks)
  then show ?case
    by (cases d) (auto split: option.splits if_splits)
qed

lemma jdel_missing: "\<not> Exists (jget d ks) \<Longrightarrow> jdel d ks = Inr d"
proof (induction ks arbitrary: d)
  case Nil
  show ?case by simp
next
  case (Cons k ks)
  have ne: "ks \<noteq> []" if "\<not> Exists (jget c ks)" for c
    using that by (auto simp: found_def)
  show ?case
  proof (cases d)
    case (JRaw s)
    then show ?thesis by simp
  next
    case (JObj kvs)
    show ?thesis
    proof (cases "map_of kvs k")
      case None
      with JObj show ?thesis by simp
    next
      case (Some c)
      with JObj Cons.prems have m: "\<not> Exists (jget c ks)" by simp
      from Cons.IH[OF m] ne[OF m] Some JObj show ?thesis
        by (simp add: updateKey_same)
    qed
  next
    case (JArr xs)
    show ?thesis
    proof (cases "parseIndex k")
      case None
      with JArr show ?thesis by simp
    next
      case (Some i)
      show ?thesis
      proof (cases "i < length xs")
        case True
        with JArr Some Cons.prems have m: "\<not> Exists (jget (xs ! i) ks)"
          by (auto split: if_splits)
        from Cons.IH[OF m] ne[OF m] Some True JArr show ?thesis
          by simp
      next
        case False
        with JArr Some show ?thesis by simp
      qed
    qed
  qed
qed

lemma treeDocument_delete_missing:
  "plainPath q \<Longrightarrow> \<not> Exists (GetBytes treeDocument d q) \<Longrightarrow> DeleteBytes treeDocument d q = Inr d"
  by (simp add: treeDocument_def plainPath_def jdel_missing)

lemma treeDocument_get_missing:
  "\<not> Exists (GetBytes treeDocument d q) \<Longrightarrow> Raw (GetBytes treeDocument d q) = []"
  using jget_missing[of d "splitPath q"] by (simp add: treeDocument_def notFound_def)

lemma treeDocument_get_after_set:
  "SetRawBytes treeDocument d q raw = Inr d' \<Longrightarrow>
   Exists (GetBytes treeDocument d' q) \<and> Raw (GetBytes treeDocument d' q) = raw"
  using jget_jset[of d "splitPath q" raw d']
  by (auto simp: treeDocument_def found_def split: if_splits)

section \<open>Lemmas about the addresses of nested records\<close>

lemma joinPath_prefixOf: "joinPath Q n = prefixOf Q @ n"
  by (simp add: prefixOf_def)

lemma joinPath_nonempty: "A \<noteq> [] \<Longrightarrow> joinPath A m = A @ ''.'' @ m"
  by simp

lemma joinPath_empty: "joinPath [] m = m"
  by simp

declare joinPath.simps [simp del]

lemma HasPrefix_append: "HasPrefix (x @ y) x"
  by (simp add: HasPrefix_def)

lemma HasPrefix_decompose: "HasPrefix q x \<Longrightarrow> q = x @ drop (length x) q"
  by (metis HasPrefix_def append_take_drop_id)

lemma under_cases:
  assumes "under Q n q"
  obtains rest where "q = joinPath Q n @ rest" "rest = [] \<or> hd rest = CHR ''.''"
proof -
  from assms consider "q = joinPath Q n" | "HasPrefix q (joinPath Q n @ ''.'')"
    by (auto simp: under_def)
  then show ?thesis
  proof cases
    case 1
    then have "q = joinPath Q n @ []" by simp
    then show ?thesis using that by blast
  next
    case 2
    from HasPrefix_decompose[OF 2]
    have "q = joinPath Q n @ (CHR ''.'' # drop (length (joinPath Q n @ ''.'')) q)"
      by simp
    then show ?thesis using that by (metis list.sel(1))
  qed
qed

lemma under_intro:
  assumes "q = joinPath Q n @ rest" "rest = [] \<or> hd rest = CHR ''.''"
  shows "under Q n q"
proof (cases rest)
  case Nil
  with assms(1) show ?thesis by (simp add: under_def)
next
  case (Cons c cs)
  with assms have "q = (joinPath Q n @ ''.'') @ cs" by simp
  then have "HasPrefix q (joinPath Q n @ ''.'')"
    using HasPrefix_append by metis
  then show ?thesis by (simp add: under_def)
qed

lemma under_segAfter:
  assumes "under Q n q" "dotFree n"
  shows "segAfter Q q = n"
proof -
  have nodot: "\<And>c. c \<in> set n \<Longrightarrow> c \<noteq> CHR ''.''"
    using assms(2) by (auto simp: dotFree_def)
  from assms(1) obtain rest where q: "q = joinPath Q n @ rest" and rest: "rest = [] \<or> hd rest = CHR ''.''"
    by (rule under_cases)
  have "segAfter Q q = takeWhile (\<lambda>c. c \<noteq> CHR ''.'') (n @ rest)"
    unfolding segAfter_def q joinPath_prefixOf by simp
  also have "\<dots> = n @ takeWhile (\<lambda>c. c \<noteq> CHR ''.'') rest"
    using nodot by (simp add: takeWhile_append2)
  also have "takeWhile (\<lambda>c. c \<noteq> CHR ''.'') rest = []"
    using rest by (cases rest) auto
  finally show ?thesis by simp
qed

lemma under_child:
  assumes "under A m q" "A \<noteq> []" "A = joinPath Q n @ s" "s = [] \<or> hd s = CHR ''.''"
  shows "under Q n q"
proof -
  from assms(1) obtain rest where "q = joinPath A m @ rest"
    by (rule under_cases)
  with assms(2,3) have q: "q = joinPath Q n @ (s @ ''.'' @ m @ rest)"
    by (simp add: joinPath_nonempty)
  have "s @ ''.'' @ m @ rest = [] \<or> hd (s @ ''.'' @ m @ rest) = CHR ''.''"
    using assms(4) by (cases s) auto
  with q show ?thesis by (rule under_intro)
qed

lemma distinct_concat_keyed:
  assumes "distinct (map n fs)"
    and "\<And>x. x \<in> set fs \<Longrightarrow> distinct (g x)"
    and "\<And>x q. x \<in> set fs \<Longrightarrow> q \<in> set (g x) \<Longrightarrow> key q = n x"
  shows "distinct (concat (map g fs))"
  using assms
proof (induction fs)
  case Nil
  then show ?case by simp
next
  case (Cons x fs)
  have rest: "distinct (concat (map g fs))"
    using Cons by simp
  have "set (g x) \<inter> set (concat (map g fs)) = {}"
  proof (rule ccontr)
    assume "set (g x) \<inter> set (concat (map g fs)) \<noteq> {}"
    then obtain q y where "q \<in> set (g x)" "y \<in> set fs" "q \<in> set (g y)"
      by auto
    with Cons.prems(3)[of x q] Cons.prems(3)[of y q] have "n x = n y"
      by simp
    with \<open>y \<in> set fs\<close> Cons.prems(1) show False by auto
  qed
  with rest Cons.prems(2)[of x] show ?case by simp
qed

lemma joinPath_append: "joinPath Q (n @ s) = joinPath Q n @ s"
  by (simp add: joinPath_prefixOf)

lemma sliceLoop_name:
  "fst (sliceLoop t n) = fst (sliceLoop t []) \<and> snd (sliceLoop t n) = n @ snd (sliceLoop t [])"
proof (induction t arbitrary: n)
  case (Slice t)
  from Slice[of "n @ ''.#''"] Slice[of "''.#''"] show ?case by simp
qed simp_all

lemma extractStructRules_deref:
  "extractStructRules jm t A =
     (case derefPtr t of Struct cs \<Rightarrow> extractStructRules jm (Struct cs) A | _ \<Rightarrow> [])"
  by (subst (1 2) extractStructRules.simps) (simp split: gotype.splits)

lemma extractStructRules_exported:
  "extractStructRules jm (Struct flds) Q =
     concat (map (\<lambda>sf. extractStructFieldRules jm sf Q) (filter IsExported flds))"
  by (subst extractStructRules.simps) (induction flds; simp)

lemma field_rules_unfold:
  "extractStructFieldRules jm sf Q =
     (if snd (parseFieldTag jm sf) = ''-''
      then [\<lparr>Path = joinPath Q (wireName jm sf), Action = ''-'', sliceLevel = 0\<rparr>]
      else if \<not> isComposite (unwrapped (Type sf))
      then (if snd (parseFieldTag jm sf) = [] then []
            else [\<lparr>Path = joinPath Q (wireName jm sf), Action = snd (parseFieldTag jm sf),
                   sliceLevel = 0\<rparr>])
      else
        let A = (if isSliceField sf then joinPath Q (wireName jm sf @ ''.#'') else wireName jm sf)
        in case unwrapped (Type sf) of
             Struct cs \<Rightarrow> extractStructRules jm (Struct cs) A
           | Slice t \<Rightarrow>
               extractStructRules jm (fst (sliceLoop (Slice t) A)) (snd (sliceLoop (Slice t) A))
           | _ \<Rightarrow> [\<lparr>Path = joinPath Q A, Action = Get (Tag sf) (tag jm), sliceLevel = 0\<rparr>])"
  by (subst extractStructFieldRules.simps)
     (simp add: Let_def unwrapped_def isSliceField_def wireName_def split: gotype.splits)

lemma flatField_unwrapped:
  "flatField jm sf = (snd (parseFieldTag jm sf) = ''-'' \<or> \<not> isComposite (unwrapped (Type sf)))"
  by (simp add: flatField_def unwrapped_def Let_def)

lemma unwrapped_Slice_isSlice:
  assumes "unwrapped (Type sf) = Slice t"
  shows "isSliceField sf"
proof (rule ccontr)
  assume "\<not> isSliceField sf"
  with assms have "derefPtr (Type sf) = Slice t"
    by (simp add: unwrapped_def isSliceField_def Let_def)
  with \<open>\<not> isSliceField sf\<close> show False by (simp add: isSliceField_def)
qed

lemma field_flat_rules:
  assumes "flatField jm sf"
  shows "extractStructFieldRules jm sf Q = []
         \<or> (\<exists>a. extractStructFieldRules jm sf Q =
               [\<lparr>Path = joinPath Q (wireName jm sf), Action = a, sliceLevel = 0\<rparr>])"
proof -
  from assms consider (del) "snd (parseFieldTag jm sf) = ''-''"
    | (leaf) "snd (parseFieldTag jm sf) \<noteq> ''-''" "\<not> isComposite (unwrapped (Type sf))"
    by (auto simp: flatField_unwrapped)
  then show ?thesis
  proof cases
    case del
    then show ?thesis by (simp add: field_rules_unfold)
  next
    case leaf
    then show ?thesis by (simp add: field_rules_unfold)
  qed
qed

lemma field_composite_rules:
  assumes "\<not> flatField jm sf"
  shows "extractStructFieldRules jm sf Q =
        (case unwrapped (Type sf) of
           Struct cs \<Rightarrow> extractStructRules jm (Struct cs) (parentOf jm sf Q)
         | Slice t \<Rightarrow>
             extractStructRules jm (fst (sliceLoop (Slice t) (parentOf jm sf Q)))
               (snd (sliceLoop (Slice t) (parentOf jm sf Q)))
         | _ \<Rightarrow> [\<lparr>Path = joinPath Q (parentOf jm sf Q), Action = Get (Tag sf) (tag jm),
                   sliceLevel = 0\<rparr>])"
proof -
  from assms have "snd (parseFieldTag jm sf) \<noteq> ''-''" "isComposite (unwrapped (Type sf))"
    by (simp_all add: flatField_unwrapped)
  then have unf: "extractStructFieldRules jm sf Q =
      (let A = (if isSliceField sf then joinPath Q (wireName jm sf @ ''.#'') else wireName jm sf)
       in case unwrapped (Type sf) of
            Struct cs \<Rightarrow> extractStructRules jm (Struct cs) A
          | Slice t \<Rightarrow>
              extractStructRules jm (fst (sliceLoop (Slice t) A)) (snd (sliceLoop (Slice t) A))
          | _ \<Rightarrow> [\<lparr>Path = joinPath Q A, Action = Get (Tag sf) (tag jm), sliceLevel = 0\<rparr>])"
    by (simp only: field_rules_unfold if_False if_True not_True_eq_False not_False_eq_True)
  show ?thesis
    unfolding unf parentOf_def Let_def by (rule refl)
qed

lemma parentOf_form:
  assumes "isSliceField sf \<or> Q = []" and "dotFree (wireName jm sf)"
  obtains s where "parentOf jm sf Q \<noteq> []"
    and "parentOf jm sf Q = joinPath Q (wireName jm sf) @ s"
    and "s = [] \<or> hd s = CHR ''.''"
proof (cases "isSliceField sf")
  case True
  then have eq: "parentOf jm sf Q = joinPath Q (wireName jm sf) @ ''.#''"
    by (simp add: parentOf_def joinPath_append)
  then have ne: "parentOf jm sf Q \<noteq> []" by simp
  have "''.#'' = [] \<or> hd ''.#'' = CHR ''.''" by simp
  with ne eq show ?thesis by (rule that)
next
  case False
  with assms(1) have "Q = []" by simp
  with False have eq: "parentOf jm sf Q = joinPath Q (wireName jm sf) @ []"
    by (simp add: parentOf_def joinPath_empty)
  have ne: "parentOf jm sf Q \<noteq> []"
    using False assms(2) by (simp add: parentOf_def dotFree_def)
  have "([]::string) = [] \<or> hd ([]::string) = CHR ''.''" by simp
  with ne eq show ?thesis by (rule that)
qed

lemma single_rule_under:
  assumes "isSliceField sf \<longrightarrow> Q = []"
  shows "under Q (wireName jm sf) (joinPath Q (parentOf jm sf Q))"
proof (cases "isSliceField sf")
  case True
  with assms have Q: "Q = []" by simp
  have "joinPath [] (joinPath [] (wireName jm sf @ ''.#'')) = joinPath [] (wireName jm sf) @ ''.#''"
    by (simp add: joinPath_empty)
  moreover have "''.#'' = [] \<or> hd ''.#'' = CHR ''.''" by simp
  ultimately have "under [] (wireName jm sf) (joinPath [] (joinPath [] (wireName jm sf @ ''.#'')))"
    by (rule under_intro)
  with True Q show ?thesis by (simp add: parentOf_def)
next
  case False
  then show ?thesis by (simp add: under_def parentOf_def)
qed

lemma children_under:
  assumes d: "distinct (map Path rs)"
    and u: "\<And>q. q \<in> set (map Path rs) \<Longrightarrow> \<exists>c \<in> set cs. under A (wireName jm c) q"
    and A: "A \<noteq> []" "A = joinPath Q n @ s" "s = [] \<or> hd s = CHR ''.''"
  shows "distinct (map Path rs) \<and> (\<forall>q \<in> set (map Path rs). under Q n q)"
proof -
  have "under Q n q" if "q \<in> set (map Path rs)" for q
  proof -
    from u[OF that] obtain c where "under A (wireName jm c) q" by blast
    then show ?thesis using A by (rule under_child)
  qed
  with d show ?thesis by blast
qed

lemma field_struct_paths:
  assumes nf: "\<not> flatField jm sf"
    and st: "unwrapped (Type sf) = Struct cs"
    and sl: "isSliceField sf \<or> Q = []"
    and nm: "dotFree (wireName jm sf)"
    and IH: "\<And>A. distinct (map Path (extractStructRules jm (Struct cs) A))
               \<and> (\<forall>q \<in> set (map Path (extractStructRules jm (Struct cs) A)).
                     \<exists>c \<in> set cs. under A (wireName jm c) q)"
  shows "distinct (map Path (extractStructFieldRules jm sf Q))
         \<and> (\<forall>q \<in> set (map Path (extractStructFieldRules jm sf Q)). under Q (wireName jm sf) q)"
proof -
  have r: "extractStructFieldRules jm sf Q = extractStructRules jm (Struct cs) (parentOf jm sf Q)"
    by (simp only: field_composite_rules[OF nf] st gotype.case)
  from sl nm obtain s where A: "parentOf jm sf Q \<noteq> []"
    "parentOf jm sf Q = joinPath Q (wireName jm sf) @ s" "s = [] \<or> hd s = CHR ''.''"
    by (rule parentOf_form)
  from IH[of "parentOf jm sf Q"]
  have d: "distinct (map Path (extractStructRules jm (Struct cs) (parentOf jm sf Q)))"
    and u: "\<And>q. q \<in> set (map Path (extractStructRules jm (Struct cs) (parentOf jm sf Q))) \<Longrightarrow>
              \<exists>c \<in> set cs. under (parentOf jm sf Q) (wireName jm c) q"
    by blast+
  show ?thesis
    unfolding r by (rule children_under[OF d u A])
qed

lemma sliceLoop_Slice:
  "fst (sliceLoop (Slice t) A) = fst (sliceLoop t ''.#'')"
  "snd (sliceLoop (Slice t) A) = A @ ''.#'' @ snd (sliceLoop t [])"
proof -
  have "sliceLoop (Slice t) A = sliceLoop t (A @ ''.#'')" by simp
  moreover have "fst (sliceLoop t (A @ ''.#'')) = fst (sliceLoop t [])"
    "snd (sliceLoop t (A @ ''.#'')) = (A @ ''.#'') @ snd (sliceLoop t [])"
    using sliceLoop_name[of t "A @ ''.#''"] by blast+
  moreover have "fst (sliceLoop t ''.#'') = fst (sliceLoop t [])"
    using sliceLoop_name[of t "''.#''"] by blast
  ultimately show "fst (sliceLoop (Slice t) A) = fst (sliceLoop t ''.#'')"
    "snd (sliceLoop (Slice t) A) = A @ ''.#'' @ snd (sliceLoop t [])"
    by (simp_all only: append_assoc)
qed

lemma field_slice_paths:
  assumes nf: "\<not> flatField jm sf"
    and st: "unwrapped (Type sf) = Slice t"
    and nm: "dotFree (wireName jm sf)"
    and IH: "\<And>cs A. derefPtr (fst (sliceLoop t ''.#'')) = Struct cs \<Longrightarrow>
               distinct (map Path (extractStructRules jm (Struct cs) A))
               \<and> (\<forall>q \<in> set (map Path (extractStructRules jm (Struct cs) A)).
                     \<exists>c \<in> set cs. under A (wireName jm c) q)"
  shows "distinct (map Path (extractStructFieldRules jm sf Q))
         \<and> (\<forall>q \<in> set (map Path (extractStructFieldRules jm sf Q)). under Q (wireName jm sf) q)"
proof -
  let ?P = "parentOf jm sf Q"
  let ?t' = "fst (sliceLoop t ''.#'')"
  let ?A' = "?P @ ''.#'' @ snd (sliceLoop t [])"
  have r: "extractStructFieldRules jm sf Q = extractStructRules jm ?t' ?A'"
    by (simp only: field_composite_rules[OF nf] st gotype.case sliceLoop_Slice)
  have "isSliceField sf" using st by (rule unwrapped_Slice_isSlice)
  then have "isSliceField sf \<or> Q = []" by simp
  from this nm obtain s where P: "?P \<noteq> []"
    "?P = joinPath Q (wireName jm sf) @ s" "s = [] \<or> hd s = CHR ''.''"
    by (rule parentOf_form)
  have A1: "?A' \<noteq> []" by simp
  have A2: "?A' = joinPath Q (wireName jm sf) @ (s @ ''.#'' @ snd (sliceLoop t []))"
    by (subst P(2)) (simp only: append_assoc)
  have A3: "s @ ''.#'' @ snd (sliceLoop t []) = []
      \<or> hd (s @ ''.#'' @ snd (sliceLoop t [])) = CHR ''.''"
    using P(3) by (cases s) simp_all
  show ?thesis
  proof (cases "derefPtr ?t'")
    case (Struct cs)
    have r': "extractStructFieldRules jm sf Q = extractStructRules jm (Struct cs) ?A'"
      unfolding r by (subst extractStructRules_deref) (simp only: Struct gotype.case)
    from IH[OF Struct, of ?A']
    have d: "distinct (map Path (extractStructRules jm (Struct cs) ?A'))"
      and u: "\<And>q. q \<in> set (map Path (extractStructRules jm (Struct cs) ?A')) \<Longrightarrow>
                \<exists>c \<in> set cs. under ?A' (wireName jm c) q"
      by blast+
    show ?thesis
      unfolding r' by (rule children_under[OF d u A1 A2 A3])
  next
    case Basic
    have "extractStructFieldRules jm sf Q = []"
      unfolding r by (subst extractStructRules_deref) (simp only: Basic gotype.case)
    then show ?thesis by simp
  next
    case (Ptr x)
    have "extractStructFieldRules jm sf Q = []"
      unfolding r by (subst extractStructRules_deref) (simp only: Ptr gotype.case)
    then show ?thesis by simp
  next
    case (Slice x)
    have "extractStructFieldRules jm sf Q = []"
      unfolding r by (subst extractStructRules_deref) (simp only: Slice gotype.case)
    then show ?thesis by simp
  next
    case (Array k x)
    have "extractStructFieldRules jm sf Q = []"
      unfolding r by (subst extractStructRules_deref) (simp only: Array gotype.case)
    then show ?thesis by simp
  next
    case (MapT k v)
    have "extractStructFieldRules jm sf Q = []"
      unfolding r by (subst extractStructRules_deref) (simp only: MapT gotype.case)
    then show ?thesis by simp
  qed
qed

lemma field_other_paths:
  assumes nf: "\<not> flatField jm sf"
    and one: "extractStructFieldRules jm sf Q =
        [\<lparr>Path = joinPath Q (parentOf jm sf Q), Action = Get (Tag sf) (tag jm), sliceLevel = 0\<rparr>]"
    and c: "isSliceField sf \<longrightarrow> Q = []"
  shows "distinct (map Path (extractStructFieldRules jm sf Q))
         \<and> (\<forall>q \<in> set (map Path (extractStructFieldRules jm sf Q)). under Q (wireName jm sf) q)"
  unfolding one using single_rule_under[OF c, of jm] by simp

lemma field_flat_paths:
  assumes "flatField jm sf"
  shows "distinct (map Path (extractStructFieldRules jm sf Q))
         \<and> (\<forall>q \<in> set (map Path (extractStructFieldRules jm sf Q)). under Q (wireName jm sf) q)"
proof -
  have self: "under Q (wireName jm sf) (joinPath Q (wireName jm sf))"
    by (simp add: under_def)
  from field_flat_rules[OF assms, of Q] show ?thesis
  proof
    assume "extractStructFieldRules jm sf Q = []"
    then show ?thesis by simp
  next
    assume "\<exists>a. extractStructFieldRules jm sf Q =
        [\<lparr>Path = joinPath Q (wireName jm sf), Action = a, sliceLevel = 0\<rparr>]"
    then obtain a where "extractStructFieldRules jm sf Q =
        [\<lparr>Path = joinPath Q (wireName jm sf), Action = a, sliceLevel = 0\<rparr>]"
      by blast
    with self show ?thesis by simp
  qed
qed

lemma ok_field_paths:
  assumes ok: "okField jm atTop sf"
    and nm: "dotFree (wireName jm sf)"
    and top: "atTop \<Longrightarrow> Q = []"
    and IH: "\<And>cs A. Suc (size_list size cs) < size sf \<Longrightarrow> okRecord jm False cs \<Longrightarrow>
               distinct (map Path (extractStructRules jm (Struct cs) A))
               \<and> (\<forall>q \<in> set (map Path (extractStructRules jm (Struct cs) A)).
                     \<exists>c \<in> set cs. under A (wireName jm c) q)"
  shows "distinct (map Path (extractStructFieldRules jm sf Q))
         \<and> (\<forall>q \<in> set (map Path (extractStructFieldRules jm sf Q)). under Q (wireName jm sf) q)"
proof (cases "flatField jm sf")
  case True
  then show ?thesis by (rule field_flat_paths)
next
  case False
  from ok False have shape:
    "case unwrapped (Type sf) of
       Struct cs \<Rightarrow> (isSliceField sf \<or> atTop) \<and> okRecord jm False cs
     | Slice t \<Rightarrow>
         (case derefPtr (fst (sliceLoop (Slice t) [])) of
            Struct cs \<Rightarrow> okRecord jm False cs
          | _ \<Rightarrow> True)
     | _ \<Rightarrow> atTop \<or> \<not> isSliceField sf"
    by (subst (asm) okField.simps) simp
  note rules = field_composite_rules[OF False, of Q]
  show ?thesis
  proof (cases "unwrapped (Type sf)")
    case Basic
    from shape top have c: "isSliceField sf \<longrightarrow> Q = []"
      by (auto simp only: Basic gotype.case)
    show ?thesis
      by (rule field_other_paths[OF False _ c]) (simp only: rules Basic gotype.case)
  next
    case (Ptr x)
    from shape top have c: "isSliceField sf \<longrightarrow> Q = []"
      by (auto simp only: Ptr gotype.case)
    show ?thesis
      by (rule field_other_paths[OF False _ c]) (simp only: rules Ptr gotype.case)
  next
    case (Array k x)
    from shape top have c: "isSliceField sf \<longrightarrow> Q = []"
      by (auto simp only: Array gotype.case)
    show ?thesis
      by (rule field_other_paths[OF False _ c]) (simp only: rules Array gotype.case)
  next
    case (MapT k v)
    from shape top have c: "isSliceField sf \<longrightarrow> Q = []"
      by (auto simp only: MapT gotype.case)
    show ?thesis
      by (rule field_other_paths[OF False _ c]) (simp only: rules MapT gotype.case)
  next
    case (Struct cs)
    from shape have sl: "isSliceField sf \<or> atTop" and okc: "okRecord jm False cs"
      by (simp_all only: Struct gotype.case)
    from sl top have sl': "isSliceField sf \<or> Q = []" by blast
    show ?thesis
      by (rule field_struct_paths[OF False Struct sl' nm])
         (rule IH[OF size_reached_struct[OF Struct] okc])
  next
    case (Slice t)
    have loop: "fst (sliceLoop (Slice t) []) = fst (sliceLoop t ''.#'')"
      by (rule sliceLoop_Slice)
    show ?thesis
    proof (rule field_slice_paths[OF False Slice nm])
      fix cs A
      assume d: "derefPtr (fst (sliceLoop t ''.#'')) = Struct cs"
      with shape have okc: "okRecord jm False cs"
        by (simp only: Slice gotype.case loop)
      show "distinct (map Path (extractStructRules jm (Struct cs) A))
          \<and> (\<forall>q \<in> set (map Path (extractStructRules jm (Struct cs) A)).
                \<exists>c \<in> set cs. under A (wireName jm c) q)"
        by (rule IH[OF size_reached_slice[OF Slice d] okc])
    qed
  qed
qed

lemma okRecord_fields:
  assumes "okRecord jm atTop flds"
  shows "distinct (map (wireName jm) (filter IsExported flds))"
    and "\<And>sf. sf \<in> set (filter IsExported flds) \<Longrightarrow> dotFree (wireName jm sf)"
    and "\<And>sf. sf \<in> set (filter IsExported flds) \<Longrightarrow> okField jm atTop sf"
proof -
  from assms have a: "distinct (map (wireName jm) (filter IsExported flds))"
    and b: "list_all (\<lambda>sf. \<not> IsExported sf \<or> (dotFree (wireName jm sf) \<and> okField jm atTop sf)) flds"
    by (subst (asm) okRecord.simps, blast)+
  show "distinct (map (wireName jm) (filter IsExported flds))" by (rule a)
  show "dotFree (wireName jm sf)" if "sf \<in> set (filter IsExported flds)" for sf
    using b that by (auto simp: list_all_iff)
  show "okField jm atTop sf" if "sf \<in> set (filter IsExported flds)" for sf
    using b that by (auto simp: list_all_iff)
qed

lemma ok_record_paths:
  assumes "okRecord jm atTop flds" and "atTop \<Longrightarrow> Q = []"
  shows "distinct (map Path (extractStructRules jm (Struct flds) Q))
         \<and> (\<forall>q \<in> set (map Path (extractStructRules jm (Struct flds) Q)).
               \<exists>c \<in> set flds. under Q (wireName jm c) q)"
  using assms
proof (induction "size_list size flds" arbitrary: flds atTop Q rule: less_induct)
  case less
  let ?fs = "filter IsExported flds"
  let ?g = "\<lambda>sf. map Path (extractStructFieldRules jm sf Q)"
  note rec = okRecord_fields[OF less.prems(1)]
  have fld: "distinct (?g sf) \<and> (\<forall>q \<in> set (?g sf). under Q (wireName jm sf) q)"
    if "sf \<in> set ?fs" for sf
  proof (rule ok_field_paths)
    show "okField jm atTop sf" using that by (rule rec(3))
    show "dotFree (wireName jm sf)" using that by (rule rec(2))
    show "atTop \<Longrightarrow> Q = []" by (rule less.prems(2))
    fix cs and A :: string
    assume small: "Suc (size_list size cs) < size sf" and okc: "okRecord jm False cs"
    from that have "sf \<in> set flds" by simp
    then have "size sf < Suc (size_list size flds)" by (rule size_list_member)
    with small have lt: "size_list size cs < size_list size flds" by simp
    have "False \<Longrightarrow> A = []" by simp
    with less.hyps[OF lt okc]
    show "distinct (map Path (extractStructRules jm (Struct cs) A))
        \<and> (\<forall>q \<in> set (map Path (extractStructRules jm (Struct cs) A)).
              \<exists>c \<in> set cs. under A (wireName jm c) q)"
      by blast
  qed
  have paths: "map Path (extractStructRules jm (Struct flds) Q) = concat (map ?g ?fs)"
    by (simp only: extractStructRules_exported map_concat map_map comp_def)
  have dist: "distinct (concat (map ?g ?fs))"
  proof (rule distinct_concat_keyed[where n = "wireName jm" and key = "segAfter Q"])
    show "distinct (map (wireName jm) ?fs)" by (rule rec(1))
    show "distinct (?g x)" if "x \<in> set ?fs" for x using fld[OF that] by blast
    show "segAfter Q q = wireName jm x" if "x \<in> set ?fs" "q \<in> set (?g x)" for x q
    proof -
      from fld[OF that(1)] that(2) have "under Q (wireName jm x) q" by blast
      then show ?thesis using rec(2)[OF that(1)] by (rule under_segAfter)
    qed
  qed
  have mem: "\<exists>c \<in> set flds. under Q (wireName jm c) q" if "q \<in> set (concat (map ?g ?fs))" for q
  proof -
    from that obtain sf where sf: "sf \<in> set ?fs" and q: "q \<in> set (?g sf)" by auto
    from fld[OF sf] q have "under Q (wireName jm sf) q" by blast
    moreover from sf have "sf \<in> set flds" by simp
    ultimately show ?thesis by blast
  qed
  from dist mem show ?case unfolding paths by blast
qed

declare joinPath.simps [simp]

section \<open>Properties of the maskers\<close>

text \<open>
  C8. The e-mail masker maps the raw value \<open>"user@example.com"\<close> to
  \<open>"u**r@e******.com"\<close> and \<open>"ab@domain.com"\<close> to \<open>"a*@d*****.com"\<close>; every input
  that is not enclosed in double quotes (shorter than two bytes, or not starting or
  not ending with a double quote) is mapped to \<open>"invalid_email_format"\<close>.
\<close>

theorem Email_scenarios:
  "Email (quoted ''user@example.com'') = quoted ''u**r@e******.com''
   \<and> Email (quoted ''ab@domain.com'') = quoted ''a*@d*****.com''
   \<and> (\<forall>s. length s < 2 \<or> s ! 0 \<noteq> dq \<or> s ! (length s - 1) \<noteq> dq
          \<longrightarrow> Email s = quoted ''invalid_email_format'')"
proof (intro conjI allI impI)
  show "Email (quoted ''user@example.com'') = quoted ''u**r@e******.com''"
    by code_simp
  show "Email (quoted ''ab@domain.com'') = quoted ''a*@d*****.com''"
    by code_simp
  fix s
  assume "length s < 2 \<or> s ! 0 \<noteq> dq \<or> s ! (length s - 1) \<noteq> dq"
  then show "Email s = quoted ''invalid_email_format''"
    by (auto simp: Email_def invalidEmail_def)
qed

text \<open>The unquoted input of the test \<open>TestEmail\<close>.\<close>

theorem Email_scenarios_witness:
  "Email ''missingquotes@example.com'' = quoted ''invalid_email_format''"
proof -
  have "''missingquotes@example.com'' ! 0 \<noteq> dq"
    by (simp add: dq_def)
  with Email_scenarios show ?thesis by blast
qed

section \<open>Properties of the rules of a struct\<close>

text \<open>
  C2. A field tagged \<open>-\<close> gives exactly one rule, whatever its type is:
  \<open>extractStructFieldRules\<close> returns the single rule \<open>{address, "-"}\<close> for it and
  does not look into the type of the field; and the rules that \<open>ParseStruct\<close> derives
  for a struct with such an exported field are the rules of the fields before it, this
  one rule, and the rules of the fields after it.
\<close>

theorem deletion_tag_is_terminal:
  assumes "snd (parseFieldTag jm sf) = ''-''" and "IsExported sf"
  shows "extractStructFieldRules jm sf parentAttr =
           [\<lparr>Path = joinPath parentAttr (fst (parseFieldTag jm sf)), Action = ''-'',
             sliceLevel = 0\<rparr>]
         \<and> Rules (ParseStruct jm (Struct (pre @ sf # post))) =
             Rules (ParseStruct jm (Struct pre))
             @ [\<lparr>Path = fst (parseFieldTag jm sf), Action = ''-'',
                 sliceLevel = int (Count (fst (parseFieldTag jm sf)) ''.#'')\<rparr>]
             @ Rules (ParseStruct jm (Struct post))"
proof -
  have one: "extractStructFieldRules jm sf p =
      [\<lparr>Path = joinPath p (fst (parseFieldTag jm sf)), Action = ''-'', sliceLevel = 0\<rparr>]" for p
    using assms(1) by (subst extractStructFieldRules.simps) (simp add: Let_def)
  have str: "extractStructRules jm (Struct fs) p =
      concat (map (\<lambda>sft. if \<not> IsExported sft then [] else extractStructFieldRules jm sft p) fs)"
    for fs p
    by (subst extractStructRules.simps) simp
  show ?thesis
    using assms(2) by (simp add: one ParseStruct_def str)
qed

text \<open>
  \<open>HiddenItems [][]TestHiddenAttr `mask:"-"`\<close> of the test type \<open>Matrix\<close>: one
  rule \<open>hiddenItems\<close>, and none for the tagged field \<open>amount\<close> below it.
\<close>

theorem deletion_tag_is_terminal_witness:
  "\<forall>u.
     (snd (parseFieldTag (New u) MatrixHiddenItems) = ''-''
      \<and> IsExported MatrixHiddenItems
      \<and> extractStructFieldRules (New u) MatrixHiddenItems [] =
          [\<lparr>Path = ''hiddenItems'', Action = ''-'', sliceLevel = 0\<rparr>]
      \<and> Rules (ParseStruct (New u) Matrix) =
          [\<lparr>Path = ''items.#.#.currency'', Action = ''upper'', sliceLevel = 2\<rparr>,
           \<lparr>Path = ''items.#.#.minorUnits'', Action = ''zero'', sliceLevel = 2\<rparr>,
           \<lparr>Path = ''hiddenItems'', Action = ''-'', sliceLevel = 0\<rparr>])"
  (is "\<forall>u. ?P u")
proof (rule allI)
  fix u
  have h1: "snd (parseFieldTag (New u) MatrixHiddenItems) = ''-''"
    by code_simp
  have h2: "IsExported MatrixHiddenItems"
    by code_simp
  have name: "fst (parseFieldTag (New u) MatrixHiddenItems) = ''hiddenItems''"
    by code_simp
  have cnt: "Count ''hiddenItems'' ''.#'' = 0"
    by code_simp
  have pre: "Rules (ParseStruct (New u) (Struct [MatrixID, MatrixItems])) =
       [\<lparr>Path = ''items.#.#.currency'', Action = ''upper'', sliceLevel = 2\<rparr>,
        \<lparr>Path = ''items.#.#.minorUnits'', Action = ''zero'', sliceLevel = 2\<rparr>]"
    by code_simp
  have post: "Rules (ParseStruct (New u) (Struct [])) = []"
    by code_simp
  note t = deletion_tag_is_terminal[OF h1 h2, of "[]" "[MatrixID, MatrixItems]" "[]"]
  from t have f: "extractStructFieldRules (New u) MatrixHiddenItems [] =
       [\<lparr>Path = ''hiddenItems'', Action = ''-'', sliceLevel = 0\<rparr>]"
    by (simp add: name)
  from t have "Rules (ParseStruct (New u) (Struct ([MatrixID, MatrixItems] @ MatrixHiddenItems # []))) =
       [\<lparr>Path = ''items.#.#.currency'', Action = ''upper'', sliceLevel = 2\<rparr>,
        \<lparr>Path = ''items.#.#.minorUnits'', Action = ''zero'', sliceLevel = 2\<rparr>]
       @ [\<lparr>Path = ''hiddenItems'', Action = ''-'', sliceLevel = 0\<rparr>] @ []"
    unfolding name cnt pre post by simp
  then have r: "Rules (ParseStruct (New u) Matrix) =
       [\<lparr>Path = ''items.#.#.currency'', Action = ''upper'', sliceLevel = 2\<rparr>,
        \<lparr>Path = ''items.#.#.minorUnits'', Action = ''zero'', sliceLevel = 2\<rparr>,
        \<lparr>Path = ''hiddenItems'', Action = ''-'', sliceLevel = 0\<rparr>]"
    by (simp add: Matrix_def)
  from h1 h2 f r show "?P u" by (intro conjI)
qed

text \<open>
  C4 (as amended). \<open>ParseStruct\<close> does not check that addresses are unique. For a
  well-nested record (\<open>okRecord\<close>: wire names pairwise distinct, not empty and
  without separator at every level; no record directly inside a nested record) the
  paths of the derived rules are pairwise distinct.
\<close>

theorem well_nested_paths_distinct:
  assumes "okRecord jm True flds"
  shows "distinct (map Path (Rules (ParseStruct jm (Struct flds))))"
proof -
  have "map Path (Rules (ParseStruct jm (Struct flds)))
      = map Path (extractStructRules jm (Struct flds) [])"
    by (simp add: ParseStruct_def comp_def)
  with ok_record_paths[OF assms, of "[]"] show ?thesis by simp
qed

text \<open>
  A record with a nested record and with slices of records in two levels: the
  addresses \<open>owner.name\<close>, \<open>items.#.currency\<close> and \<open>items.#.balances.#.currency\<close>.
\<close>

theorem well_nested_paths_distinct_witness:
  "\<forall>u.
     (okRecord (New u) True LedgerFields
      \<and> map Path (Rules (ParseStruct (New u) (Struct LedgerFields)))
          = [''owner.name'', ''items.#.currency'', ''items.#.balances.#.currency'']
      \<and> distinct (map Path (Rules (ParseStruct (New u) (Struct LedgerFields)))))"
  (is "\<forall>u. ?P u")
proof (rule allI)
  fix u
  have h: "okRecord (New u) True LedgerFields"
    by code_simp
  have p: "map Path (Rules (ParseStruct (New u) (Struct LedgerFields)))
       = [''owner.name'', ''items.#.currency'', ''items.#.balances.#.currency'']"
    by code_simp
  from h p well_nested_paths_distinct[OF h] show "?P u"
    by (intro conjI)
qed

text \<open>
  The claim as stated fails: two fields with the same wire name give two rules with
  the same path; and so do the fields \<open>home.geo.city\<close> and \<open>work.geo.city\<close> of two
  nested records, for which \<open>ParseStruct\<close> derives \<open>geo.city\<close> twice.
\<close>

theorem duplicate_paths_counterexample:
  "\<forall>u.
     (map Path (Rules (ParseStruct (New u) SameWireName)) = [''email'', ''email'']
      \<and> \<not> distinct (map Path (Rules (ParseStruct (New u) SameWireName)))
      \<and> map Path (Rules (ParseStruct (New u) Addresses)) = [''geo.city'', ''geo.city'']
      \<and> \<not> distinct (map Path (Rules (ParseStruct (New u) Addresses))))"
  (is "\<forall>u. ?P u")
proof (rule allI)
  fix u
  show "?P u"
    by code_simp
qed

text \<open>
  C7. In every rule set that \<open>ParseStruct\<close> produces, the \<open>sliceLevel\<close> of each
  rule is the number of \<open>.#\<close> in its path; and \<open>Mask\<close> on such a rule set never
  returns the error \<open>invalid json array path\<close>, for any document and any document
  library.
\<close>

theorem sliceLevel_counts_wildcards:
  "(\<forall>r \<in> set (Rules (ParseStruct jm src)). sliceLevel r = int (Count (Path r) ''.#''))
   \<and> Mask jm js data (ParseStruct jm src) \<noteq> Inl InvalidJsonArrayPath"
proof -
  have *: "\<forall>r \<in> set (Rules (ParseStruct jm src)). sliceLevel r = int (Count (Path r) ''.#'')"
    by (simp add: ParseStruct_def)
  from mask_never_invalid[OF *] * show ?thesis
    by (simp add: Mask_def)
qed

text \<open>
  The test \<open>Matrix\<close>: levels 2, 2 and 0, and the masked document of the test.
\<close>

theorem sliceLevel_counts_wildcards_witness:
  "\<forall>u.
     (map (\<lambda>r. (sliceLevel r, Count (Path r) ''.#'')) (Rules (ParseStruct (New u) Matrix))
        = [(2, 2), (2, 2), (0, 0)]
      \<and> Mask (New u) treeDocument matrixDoc (ParseStruct (New u) Matrix) = Inr matrixMasked
      \<and> Mask (New u) treeDocument matrixDoc (ParseStruct (New u) Matrix) \<noteq> Inl InvalidJsonArrayPath)"
  (is "\<forall>u. ?P u")
proof (rule allI)
  fix u
  have a: "map (\<lambda>r. (sliceLevel r, Count (Path r) ''.#'')) (Rules (ParseStruct (New u) Matrix))
     = [(2, 2), (2, 2), (0, 0)]"
    by code_simp
  have b: "Mask (New u) treeDocument matrixDoc (ParseStruct (New u) Matrix) = Inr matrixMasked"
    by code_simp
  from sliceLevel_counts_wildcards[of "New u" Matrix treeDocument matrixDoc]
  have "Mask (New u) treeDocument matrixDoc (ParseStruct (New u) Matrix) \<noteq> Inl InvalidJsonArrayPath"
    by (rule conjunct2)
  with a b show "?P u" by (intro conjI)
qed

text \<open>
  C9. \<open>NewWithMaskTag(t)\<close> is the masker \<open>New()\<close> for every \<open>t\<close>: its tag is
  \<open>mask\<close>, the rule tag of a field is read from the struct tag \<open>mask\<close>, and
  \<open>ParseStruct\<close> and \<open>Mask\<close> give the same results.
\<close>

theorem NewWithMaskTag_ignores_tag:
  "NewWithMaskTag u t = New u
   \<and> tag (NewWithMaskTag u t) = ''mask''
   \<and> parseFieldTag (NewWithMaskTag u t) sf
       = (fst (parseFieldTag (New u) sf), Get (Tag sf) ''mask'')
   \<and> ParseStruct (NewWithMaskTag u t) src = ParseStruct (New u) src
   \<and> Mask (NewWithMaskTag u t) js data smr = Mask (New u) js data smr"
proof -
  have eq: "NewWithMaskTag u t = New u"
    by (simp add: New_def NewWithMaskTag_def)
  have tg: "tag (New u) = ''mask''"
    by (simp add: New_def NewWithMaskTag_def AddFunc_def DefaultStructFieldTag_def Let_def)
  show ?thesis
    by (simp add: eq tg parseFieldTag_def Let_def)
qed

text \<open>
  With \<open>NewWithMaskTag("sensitive")\<close> the tag \<open>sensitive:"upper"\<close> is not read, and
  \<open>mask:"lower"\<close> is.
\<close>

theorem NewWithMaskTag_ignores_tag_witness:
  "\<forall>u.
     (Rules (ParseStruct (NewWithMaskTag u ''sensitive'')
               (Struct [Field ''A'' True [(''sensitive'', ''upper'')] Basic,
                        Field ''B'' True [(''mask'', ''lower'')] Basic]))
        = [\<lparr>Path = ''B'', Action = ''lower'', sliceLevel = 0\<rparr>])"
  (is "\<forall>u. ?P u")
proof (rule allI)
  fix u
  have ev: "Rules (ParseStruct (New u)
            (Struct [Field ''A'' True [(''sensitive'', ''upper'')] Basic,
                     Field ''B'' True [(''mask'', ''lower'')] Basic]))
     = [\<lparr>Path = ''B'', Action = ''lower'', sliceLevel = 0\<rparr>]"
    by code_simp
  from NewWithMaskTag_ignores_tag[of u "''sensitive''"]
  have eq: "NewWithMaskTag u ''sensitive'' = (New u)"
    by (rule conjunct1)
  show "?P u"
    unfolding eq by (rule ev)
qed

section \<open>Properties of applying the rules\<close>

text \<open>
  C1 (as amended). Wildcard expansion follows the order of the array. Let the document
  hold an array of \<open>N\<close> elements at \<open>p\<close>, where no \<open>#\<close> occurs in \<open>p\<close>. For a rule
  with \<open>sliceLevel > 0\<close> whose path is \<open>p.#\<close> followed by \<open>arrItemPath\<close>, \<open>mask\<close>
  runs \<open>rangeOverArray\<close> on \<open>p.#\<close>; and \<open>rangeOverArray\<close> on \<open>p.#\<close>, at every level
  of the recursion, visits exactly the \<open>N\<close> addresses \<open>p.0\<close>, ..., \<open>p.(N-1)\<close> in
  ascending order, each on the document as the earlier ones left it, up to the first
  error. What it does at an element depends on the rule: when the item path has no
  further wildcard, it applies the action at the element's item path as
  \<open>maskSimplePath\<close> does at a literal address; when the action is no deletion and the
  item path has a further wildcard, it expands that wildcard below the element; when
  the action is the deletion, it calls \<open>sjson.DeleteBytes\<close> once on the element's
  item path, with the wildcards of the item path left in place.
\<close>

theorem wildcard_expansion_in_document_order:
  assumes "CHR ''#'' \<notin> set p"
    and "Exists (GetBytes js data (p @ ''.#''))"
    and "IntVal (GetBytes js data (p @ ''.#'')) = int N"
  shows "(sliceLevel rule \<noteq> 0 \<and> Path rule = p @ ''.#'' @ arrItemPath \<longrightarrow>
            mask jm js data [rule] = rangeOverArray jm js data rule (p @ ''.#'') arrItemPath)
         \<and> (strIndex arrItemPath ''.#'' = None \<longrightarrow>
              rangeOverArray jm js data rule (p @ ''.#'') arrItemPath =
                inOrder (\<lambda>d path. maskSimplePath jm js d (path @ arrItemPath) (Action rule))
                  data (map (\<lambda>i. p @ ''.'' @ Itoa (int i)) [0..<N]))
         \<and> (Action rule \<noteq> ''-'' \<and> strIndex arrItemPath ''.#'' = Some k \<longrightarrow>
              rangeOverArray jm js data rule (p @ ''.#'') arrItemPath =
                inOrder (\<lambda>d path. rangeOverArray jm js d rule
                                     (path @ take (k + 2) arrItemPath)
                                     (drop (k + 2) arrItemPath))
                  data (map (\<lambda>i. p @ ''.'' @ Itoa (int i)) [0..<N]))
         \<and> (Action rule = ''-'' \<longrightarrow>
              rangeOverArray jm js data rule (p @ ''.#'') arrItemPath =
                inOrder (\<lambda>d path. lib (DeleteBytes js d (path @ arrItemPath)))
                  data (map (\<lambda>i. p @ ''.'' @ Itoa (int i)) [0..<N]))"
proof -
  have addr: "(\<lambda>j. ReplaceAll (p @ ''.#'') ''#'' (Itoa (int j))) = (\<lambda>i. p @ ''.'' @ Itoa (int i))"
    using assms(1) by (simp add: ReplaceAll_wildcard)
  have range: "rangeOverArray jm js data rule (p @ ''.#'') arrItemPath =
      inOrder (applyAt jm js rule arrItemPath) data
        (map (\<lambda>i. p @ ''.'' @ Itoa (int i)) [0..<N])"
    using assms(2,3) by (simp add: rangeOverArray_unfold rangeLoop_inOrder addr)
  have a: "mask jm js data [rule] = rangeOverArray jm js data rule (p @ ''.#'') arrItemPath"
    if "sliceLevel rule \<noteq> 0" "Path rule = p @ ''.#'' @ arrItemPath"
  proof -
    have idx: "strIndex (Path rule) ''.#'' = Some (length p)"
      using strIndex_wildcard[OF assms(1), of arrItemPath] that(2) by simp
    show ?thesis
      using that idx by (simp split: sum.splits)
  qed
  have b: "rangeOverArray jm js data rule (p @ ''.#'') arrItemPath =
      inOrder (\<lambda>d path. maskSimplePath jm js d (path @ arrItemPath) (Action rule))
        data (map (\<lambda>i. p @ ''.'' @ Itoa (int i)) [0..<N])"
    if "strIndex arrItemPath ''.#'' = None"
    unfolding range applyAt_last[OF that] by (rule refl)
  have c: "rangeOverArray jm js data rule (p @ ''.#'') arrItemPath =
      inOrder (\<lambda>d path. rangeOverArray jm js d rule (path @ take (k + 2) arrItemPath)
                           (drop (k + 2) arrItemPath))
        data (map (\<lambda>i. p @ ''.'' @ Itoa (int i)) [0..<N])"
    if "Action rule \<noteq> ''-''" "strIndex arrItemPath ''.#'' = Some k"
    by (subst range) (simp only: applyAt_descend[OF that])
  have d: "rangeOverArray jm js data rule (p @ ''.#'') arrItemPath =
      inOrder (\<lambda>d path. lib (DeleteBytes js d (path @ arrItemPath)))
        data (map (\<lambda>i. p @ ''.'' @ Itoa (int i)) [0..<N])"
    if "Action rule = ''-''"
    unfolding range applyAt_delete[OF that] by (rule refl)
  from a b c d show ?thesis by blast
qed

text \<open>
  The rule \<open>items.#.#.currency\<close> of the test \<open>Matrix\<close> visits \<open>items.0\<close> and
  \<open>items.1\<close> and expands the second wildcard below each; the rule
  \<open>items.#.currency\<close> on a document with two items visits \<open>items.0\<close> and
  \<open>items.1\<close> and upper-cases the currency of both.
\<close>

theorem wildcard_expansion_in_document_order_witness:
  "\<forall>u.
     (mask (New u) treeDocument matrixDoc [matrixCurrencyRule] =
        inOrder (\<lambda>d path. rangeOverArray (New u) treeDocument d matrixCurrencyRule
                             (path @ ''.#'') ''.currency'')
          matrixDoc [''items.0'', ''items.1'']
      \<and> mask (New u) treeDocument matrixDoc [matrixCurrencyRule] = Inr matrixUpper
      \<and> rangeOverArray (New u) treeDocument twoItems currencyRule ''items.#'' ''.currency'' =
          inOrder (\<lambda>d path. maskSimplePath (New u) treeDocument d (path @ ''.currency'') ''upper'')
            twoItems [''items.0'', ''items.1'']
      \<and> rangeOverArray (New u) treeDocument twoItems currencyRule ''items.#'' ''.currency''
          = Inr twoItemsMasked)"
  (is "\<forall>u. ?P u")
proof (rule allI)
  fix u
  have h1: "CHR ''#'' \<notin> set ''items''"
    by simp
  have m2: "Exists (GetBytes treeDocument matrixDoc (''items'' @ ''.#''))"
    by code_simp
  have m3: "IntVal (GetBytes treeDocument matrixDoc (''items'' @ ''.#'')) = int 2"
    by code_simp
  have t2: "Exists (GetBytes treeDocument twoItems (''items'' @ ''.#''))"
    by code_simp
  have t3: "IntVal (GetBytes treeDocument twoItems (''items'' @ ''.#'')) = int 2"
    by code_simp
  have addrs: "map (\<lambda>i. ''items'' @ ''.'' @ Itoa (int i)) [0..<2] = [''items.0'', ''items.1'']"
    by code_simp
  have mr: "sliceLevel matrixCurrencyRule \<noteq> 0
      \<and> Path matrixCurrencyRule = ''items'' @ ''.#'' @ ''.#.currency''"
    by (simp add: matrixCurrencyRule_def)
  have mk: "Action matrixCurrencyRule \<noteq> ''-'' \<and> strIndex ''.#.currency'' ''.#'' = Some 0"
    by (simp add: matrixCurrencyRule_def HasPrefix_def)
  have tk: "strIndex ''.currency'' ''.#'' = None"
    by code_simp
  have cut: "take (0 + 2) ''.#.currency'' = ''.#''" "drop (0 + 2) ''.#.currency'' = ''.currency''"
    by simp_all
  have act: "Action currencyRule = ''upper''" "''items'' @ ''.#'' = ''items.#''"
    by (simp_all add: currencyRule_def)
  have run1: "inOrder (\<lambda>d path. rangeOverArray (New u) treeDocument d matrixCurrencyRule
                             (path @ ''.#'') ''.currency'')
          matrixDoc [''items.0'', ''items.1''] = Inr matrixUpper"
    by code_simp
  have run2: "inOrder (\<lambda>d path. maskSimplePath (New u) treeDocument d (path @ ''.currency'') ''upper'')
            twoItems [''items.0'', ''items.1''] = Inr twoItemsMasked"
    by code_simp
  note tm = wildcard_expansion_in_document_order[OF h1 m2 m3,
      of matrixCurrencyRule "''.#.currency''" "New u" 0]
  note tt = wildcard_expansion_in_document_order[OF h1 t2 t3,
      of currencyRule "''.currency''" "New u" 0]
  from tm mr mk have a: "mask (New u) treeDocument matrixDoc [matrixCurrencyRule] =
        inOrder (\<lambda>d path. rangeOverArray (New u) treeDocument d matrixCurrencyRule
                             (path @ ''.#'') ''.currency'')
          matrixDoc [''items.0'', ''items.1'']"
    unfolding addrs cut by simp
  from tt tk have b: "rangeOverArray (New u) treeDocument twoItems currencyRule ''items.#'' ''.currency'' =
          inOrder (\<lambda>d path. maskSimplePath (New u) treeDocument d (path @ ''.currency'') ''upper'')
            twoItems [''items.0'', ''items.1'']"
    unfolding addrs act by blast
  from a a[unfolded run1] b b[unfolded run2] show "?P u" by (intro conjI)
qed

text \<open>
  The claim as stated fails. For a matrix of records with a field tagged \<open>-\<close>,
  \<open>ParseStruct\<close> derives the rule \<open>items.#.#.amount\<close> with the action \<open>-\<close>; on a
  matrix with one element the action is not applied at the concrete address
  \<open>items.0.0.amount\<close>: the deletion is called on \<open>items.0.#.amount\<close>, and \<open>Mask\<close>
  fails. And for a slice with the wire name \<open>a#b\<close> the index is written into every
  \<open>#\<close> of \<open>a#b.#\<close>: the address visited is \<open>a0b.0\<close>, and the value at \<open>a#b.0.c\<close>
  is left as it was.
\<close>

theorem wildcard_expansion_counterexample:
  "\<forall>u.
     (Rules (ParseStruct (New u) NestedHidden)
        = [\<lparr>Path = ''items.#.#.amount'', Action = ''-'', sliceLevel = 2\<rparr>]
      \<and> IntVal (GetBytes treeDocument nestedHiddenDoc ''items.#'') = 1
      \<and> IntVal (GetBytes treeDocument nestedHiddenDoc ''items.0.#'') = 1
      \<and> Exists (GetBytes treeDocument nestedHiddenDoc ''items.0.0.amount'')
      \<and> Mask (New u) treeDocument nestedHiddenDoc (ParseStruct (New u) NestedHidden)
          = lib (DeleteBytes treeDocument nestedHiddenDoc ''items.0.#.amount'')
      \<and> Mask (New u) treeDocument nestedHiddenDoc (ParseStruct (New u) NestedHidden)
          = Inl (LibraryError ''cannot delete value from a complex path'')
      \<and> Rules (ParseStruct (New u) HashName)
          = [\<lparr>Path = ''a#b.#.c'', Action = ''null'', sliceLevel = 1\<rparr>]
      \<and> IntVal (GetBytes treeDocument hashNameDoc ''a#b.#'') = 1
      \<and> ReplaceAll ''a#b.#'' ''#'' (Itoa 0) = ''a0b.0''
      \<and> Mask (New u) treeDocument hashNameDoc (ParseStruct (New u) HashName)
          = lib (SetRawBytes treeDocument hashNameDoc ''a0b.0.c'' ''null'')
      \<and> map_sum id (\<lambda>d. Raw (GetBytes treeDocument d ''a#b.0.c''))
          (Mask (New u) treeDocument hashNameDoc (ParseStruct (New u) HashName))
          = Inr (quoted ''x''))"
  (is "\<forall>u. ?P u")
proof (rule allI)
  fix u
  show "?P u"
    by code_simp
qed

text \<open>
  C3 (as amended). When no rule's action is \<open>-\<close> or a registered function, \<open>Mask\<close>
  never edits the document. Its result is the error of the first rule whose expansion
  fails (\<open>expansionError\<close>: \<open>invalid json array path\<close> for a rule with
  \<open>sliceLevel > 0\<close> and no wildcard in its path, \<open>json array not found\<close> for a rule
  one of whose array paths does not exist in the document, at any level and any
  element); and it is the unchanged document exactly when there is no such rule, in
  particular when all rules have \<open>sliceLevel = 0\<close> or all their arrays exist.
\<close>

theorem unregistered_actions_change_nothing:
  assumes "\<forall>r \<in> set (Rules smr). Action r \<noteq> ''-'' \<and> funcs jm (Action r) = None"
  shows "Mask jm js data smr =
           (case List.map_filter (expansionError js data) (Rules smr) of
              [] \<Rightarrow> Inr data
            | err # errs \<Rightarrow> Inl err)
         \<and> (Mask jm js data smr = Inr data) =
             list_all (\<lambda>r. expansionError js data r = None) (Rules smr)"
proof -
  have a: "Mask jm js data smr =
           (case List.map_filter (expansionError js data) (Rules smr) of
              [] \<Rightarrow> Inr data
            | err # errs \<Rightarrow> Inl err)"
    unfolding Mask_def by (rule mask_unregistered[OF assms])
  have b: "(List.map_filter f xs = []) = list_all (\<lambda>r. f r = None) xs" for f :: "Rule \<Rightarrow> 'x option" and xs
    by (induction xs) (auto simp: List.map_filter_simps split: option.splits)
  show ?thesis
    unfolding a by (simp add: b[symmetric] split: list.splits)
qed

text \<open>
  A wildcard rule on an existing array and a rule written by a caller, both with
  unregistered actions, change nothing. On the ledger whose second item has no
  \<open>balances\<close>, the rule on \<open>items.#.currency\<close> expands and the rule on
  \<open>items.#.balances.#.currency\<close> does not: the result is its error.
\<close>

theorem unregistered_actions_change_nothing_witness:
  "\<forall>u.
     (Mask (New u) treeDocument twoItems
        \<lparr>Rules = [\<lparr>Path = ''items.#.currency'', Action = ''hash'', sliceLevel = 1\<rparr>,
                  callerRule ''name'' ''rot13'']\<rparr>
        = Inr twoItems
      \<and> Mask (New u) treeDocument (ledgerDoc ''1'' ''usd'' ''eur'')
          \<lparr>Rules = [\<lparr>Path = ''items.#.currency'', Action = ''hash'', sliceLevel = 1\<rparr>,
                    \<lparr>Path = ''items.#.balances.#.currency'', Action = ''hash'', sliceLevel = 2\<rparr>,
                    \<lparr>Path = ''id'', Action = ''hash'', sliceLevel = 1\<rparr>]\<rparr>
          = Inl JsonArrayNotFound)"
  (is "\<forall>u. ?P u")
proof (rule allI)
  fix u
  let ?A = "\<lparr>Rules = [\<lparr>Path = ''items.#.currency'', Action = ''hash'', sliceLevel = 1\<rparr>,
                  callerRule ''name'' ''rot13'']\<rparr>"
  let ?B = "\<lparr>Rules = [\<lparr>Path = ''items.#.currency'', Action = ''hash'', sliceLevel = 1\<rparr>,
                    \<lparr>Path = ''items.#.balances.#.currency'', Action = ''hash'', sliceLevel = 2\<rparr>,
                    \<lparr>Path = ''id'', Action = ''hash'', sliceLevel = 1\<rparr>]\<rparr>"
  have hA: "\<forall>r \<in> set (Rules ?A). Action r \<noteq> ''-'' \<and> funcs (New u) (Action r) = None"
    by (simp add: callerRule_def New_def NewWithMaskTag_def AddFunc_def Let_def)
  have hB: "\<forall>r \<in> set (Rules ?B). Action r \<noteq> ''-'' \<and> funcs (New u) (Action r) = None"
    by (simp add: New_def NewWithMaskTag_def AddFunc_def Let_def)
  have eA: "List.map_filter (expansionError treeDocument twoItems) (Rules ?A) = []"
    by code_simp
  have eB: "List.map_filter (expansionError treeDocument (ledgerDoc ''1'' ''usd'' ''eur'')) (Rules ?B)
      = [JsonArrayNotFound, InvalidJsonArrayPath]"
    by code_simp
  from unregistered_actions_change_nothing[OF hA, of treeDocument twoItems]
  have a: "Mask (New u) treeDocument twoItems ?A = Inr twoItems"
    unfolding eA by simp
  from unregistered_actions_change_nothing[OF hB, of treeDocument "ledgerDoc ''1'' ''usd'' ''eur''"]
  have b: "Mask (New u) treeDocument (ledgerDoc ''1'' ''usd'' ''eur'') ?B = Inl JsonArrayNotFound"
    unfolding eB by simp
  from a b show "?P u" by (intro conjI)
qed

text \<open>
  The claim as stated fails: the rule set of a struct whose slice elements carry the
  unregistered tag \<open>hash\<close>, applied to a document without the array, is an error.
\<close>

theorem unregistered_actions_counterexample:
  "\<forall>u.
     (Rules (ParseStruct (New u) OptionalItems)
        = [\<lparr>Path = ''items.#.currency'', Action = ''hash'', sliceLevel = 1\<rparr>]
      \<and> funcs (New u) ''hash'' = None
      \<and> Mask (New u) treeDocument idOnly (ParseStruct (New u) OptionalItems)
          = Inl JsonArrayNotFound)"
  (is "\<forall>u. ?P u")
proof (rule allI)
  fix u
  show "?P u"
    by code_simp
qed

text \<open>
  C5 (as amended). When the rules before a rule with \<open>sliceLevel > 0\<close> have been
  applied and an array is missing during the expansion of that rule on the document
  they left (\<open>missingArray\<close>: the first wildcard prefix does not exist, or, at any
  deeper level, the next wildcard prefix below an element does not exist when the
  expansion arrives there), \<open>Mask\<close> stops: whatever rules remain, the result is the
  error \<open>json array not found\<close>. The error is this constant; it does not carry the
  address of the rule.
\<close>

theorem missing_array_aborts:
  assumes "mask jm js data before = Inr data'"
    and "sliceLevel rule \<noteq> 0"
    and "strIndex (Path rule) ''.#'' = Some idx"
    and "missingArray jm js rule data' (take (idx + 2) (Path rule)) (drop (idx + 2) (Path rule))"
  shows "Mask jm js data \<lparr>Rules = before @ rule # remaining\<rparr> = Inl JsonArrayNotFound"
  using assms(1-3) missingArray_error[OF assms(4)]
  by (simp add: Mask_def mask_append)

text \<open>
  A rule on \<open>id\<close>, then the rule \<open>items.#.balances.#.currency\<close> on a ledger whose
  first item has two balances and whose second item has none, then a rule that is not
  reached. The array \<open>items\<close> and the array \<open>items.0.balances\<close> exist; the first
  item is processed, and \<open>items.1.balances\<close> is missing.
\<close>

theorem missing_array_aborts_witness:
  "\<forall>u.
     (mask (New u) treeDocument (ledgerDoc ''1'' ''usd'' ''eur'') [\<lparr>Path = ''id'', Action = ''zero'', sliceLevel = 0\<rparr>]
        = Inr (ledgerDoc ''0'' ''usd'' ''eur'')
      \<and> Exists (GetBytes treeDocument (ledgerDoc ''1'' ''usd'' ''eur'') ''items.#'')
      \<and> Exists (GetBytes treeDocument (ledgerDoc ''1'' ''usd'' ''eur'') ''items.0.balances.#'')
      \<and> \<not> Exists (GetBytes treeDocument (ledgerDoc ''0'' ''USD'' ''EUR'') ''items.1.balances.#'')
      \<and> Mask (New u) treeDocument (ledgerDoc ''1'' ''usd'' ''eur'')
          \<lparr>Rules = [\<lparr>Path = ''id'', Action = ''zero'', sliceLevel = 0\<rparr>]
                   @ balancesRule
                   # [\<lparr>Path = ''id'', Action = ''-'', sliceLevel = 0\<rparr>]\<rparr>
        = Inl JsonArrayNotFound)"
  (is "\<forall>u. ?P u")
proof (rule allI)
  fix u
  let ?d1 = "ledgerDoc ''0'' ''usd'' ''eur''"
  have h1: "mask (New u) treeDocument (ledgerDoc ''1'' ''usd'' ''eur'')
      [\<lparr>Path = ''id'', Action = ''zero'', sliceLevel = 0\<rparr>] = Inr ?d1"
    by code_simp
  have h2: "sliceLevel balancesRule \<noteq> 0"
    by (simp add: balancesRule_def)
  have h3: "strIndex (Path balancesRule) ''.#'' = Some 5"
    by code_simp
  have e0: "Exists (GetBytes treeDocument (ledgerDoc ''1'' ''usd'' ''eur'') ''items.#'')"
    by code_simp
  have e1: "Exists (GetBytes treeDocument (ledgerDoc ''1'' ''usd'' ''eur'') ''items.0.balances.#'')"
    by code_simp
  have e2: "\<not> Exists (GetBytes treeDocument (ledgerDoc ''0'' ''USD'' ''EUR'') ''items.1.balances.#'')"
    by code_simp
  have m1: "missingArray (New u) treeDocument balancesRule (ledgerDoc ''0'' ''USD'' ''EUR'')
      (ReplaceAll ''items.#'' ''#'' (Itoa (int 1)) @ take (9 + 2) ''.balances.#.currency'')
      (drop (9 + 2) ''.balances.#.currency'')"
  proof (rule missingArray.here)
    have "ReplaceAll ''items.#'' ''#'' (Itoa (int 1)) @ take (9 + 2) ''.balances.#.currency''
        = ''items.1.balances.#''"
      by code_simp
    with e2 show "\<not> Exists (GetBytes treeDocument (ledgerDoc ''0'' ''USD'' ''EUR'')
        (ReplaceAll ''items.#'' ''#'' (Itoa (int 1)) @ take (9 + 2) ''.balances.#.currency''))"
      by simp
  qed
  have m0: "missingArray (New u) treeDocument balancesRule ?d1 ''items.#'' ''.balances.#.currency''"
  proof (rule missingArray.below[where i = 1 and subArrIdx = 9 and data' = "ledgerDoc ''0'' ''USD'' ''EUR''"])
    show "Exists (GetBytes treeDocument ?d1 ''items.#'')"
      by code_simp
    show "Action balancesRule \<noteq> ''-''"
      by (simp add: balancesRule_def)
    show "strIndex ''.balances.#.currency'' ''.#'' = Some 9"
      by code_simp
    show "int 1 < IntVal (GetBytes treeDocument ?d1 ''items.#'')"
      by code_simp
    show "inOrder (\<lambda>d path. rangeOverArray (New u) treeDocument d balancesRule
                          (path @ take (9 + 2) ''.balances.#.currency'')
                          (drop (9 + 2) ''.balances.#.currency''))
       ?d1 (map (\<lambda>j. ReplaceAll ''items.#'' ''#'' (Itoa (int j))) [0..<1]) = Inr (ledgerDoc ''0'' ''USD'' ''EUR'')"
      by code_simp
    show "missingArray (New u) treeDocument balancesRule (ledgerDoc ''0'' ''USD'' ''EUR'')
      (ReplaceAll ''items.#'' ''#'' (Itoa (int 1)) @ take (9 + 2) ''.balances.#.currency'')
      (drop (9 + 2) ''.balances.#.currency'')"
      by (rule m1)
  qed
  have split: "take (5 + 2) (Path balancesRule) = ''items.#''"
      "drop (5 + 2) (Path balancesRule) = ''.balances.#.currency''"
    by (simp_all add: balancesRule_def)
  have h4: "missingArray (New u) treeDocument balancesRule ?d1
      (take (5 + 2) (Path balancesRule)) (drop (5 + 2) (Path balancesRule))"
    unfolding split by (rule m0)
  note concl = missing_array_aborts[OF h1 h2 h3 h4,
      of "[\<lparr>Path = ''id'', Action = ''-'', sliceLevel = 0\<rparr>]"]
  from h1 e0 e1 e2 concl show "?P u" by (intro conjI)
qed

text \<open>
  The claim as stated fails: rules with different addresses fail with the same
  error value, so the error does not identify the address.
\<close>

theorem missing_array_counterexample:
  "\<forall>u.
     (Mask (New u) treeDocument idOnly
        \<lparr>Rules = [\<lparr>Path = ''orders.#.total'', Action = ''zero'', sliceLevel = 1\<rparr>]\<rparr>
        = Inl JsonArrayNotFound
      \<and> Mask (New u) treeDocument idOnly
        \<lparr>Rules = [\<lparr>Path = ''users.#.email'', Action = ''email'', sliceLevel = 1\<rparr>]\<rparr>
        = Inl JsonArrayNotFound
      \<and> ''orders.#.total'' \<noteq> ''users.#.email'')"
  (is "\<forall>u. ?P u")
proof (rule allI)
  fix u
  show "?P u"
    by code_simp
qed

text \<open>
  C6 (as amended). \<open>Mask\<close> does not look whether the address of a rule with
  \<open>sliceLevel = 0\<close> exists; what happens at a missing address is what the library
  does. Let the library ignore the deletion of a missing plain path, answer the empty
  raw text for a missing path, and let a value that has been set be the value that is
  read (as \<open>sjson\<close> and \<open>gjson\<close> do). Then for a plain address \<open>p\<close> that does not
  exist in the document: with the action \<open>-\<close>, \<open>Mask\<close> returns the document
  unchanged; with a registered function, \<open>Mask\<close> calls the function on the empty
  text and sets the result at \<open>p\<close>, which is never a no-op: it fails with the error of
  the library, or it returns a document that has the address, with that value.
\<close>

theorem missing_literal_address:
  assumes del: "\<forall>d q. plainPath q \<and> \<not> Exists (GetBytes js d q) \<longrightarrow> DeleteBytes js d q = Inr d"
    and get: "\<forall>d q. \<not> Exists (GetBytes js d q) \<longrightarrow> Raw (GetBytes js d q) = []"
    and set: "\<forall>d q raw d'. SetRawBytes js d q raw = Inr d' \<longrightarrow>
                Exists (GetBytes js d' q) \<and> Raw (GetBytes js d' q) = raw"
    and plain: "plainPath p"
    and missing: "\<not> Exists (GetBytes js data p)"
  shows "Mask jm js data \<lparr>Rules = [\<lparr>Path = p, Action = ''-'', sliceLevel = 0\<rparr>]\<rparr> = Inr data
         \<and> (a \<noteq> ''-'' \<and> funcs jm a = Some maskFunc \<longrightarrow>
              Mask jm js data \<lparr>Rules = [\<lparr>Path = p, Action = a, sliceLevel = 0\<rparr>]\<rparr>
                = lib (SetRawBytes js data p (maskFunc []))
              \<and> Mask jm js data \<lparr>Rules = [\<lparr>Path = p, Action = a, sliceLevel = 0\<rparr>]\<rparr> \<noteq> Inr data
              \<and> (\<forall>d'. Mask jm js data \<lparr>Rules = [\<lparr>Path = p, Action = a, sliceLevel = 0\<rparr>]\<rparr> = Inr d'
                    \<longrightarrow> Exists (GetBytes js d' p) \<and> Raw (GetBytes js d' p) = maskFunc []))"
proof -
  have d: "Mask jm js data \<lparr>Rules = [\<lparr>Path = p, Action = ''-'', sliceLevel = 0\<rparr>]\<rparr> = Inr data"
    using del plain missing by (simp add: Mask_def maskSimplePath_def lib_def)
  have s: "Mask jm js data \<lparr>Rules = [\<lparr>Path = p, Action = a, sliceLevel = 0\<rparr>]\<rparr>
      = lib (SetRawBytes js data p (maskFunc []))"
    if "a \<noteq> ''-''" "funcs jm a = Some maskFunc"
    using that get missing
    by (simp add: Mask_def maskSimplePath_def Let_def split: sum.splits)
  have e: "Exists (GetBytes js d' p) \<and> Raw (GetBytes js d' p) = maskFunc []"
    if "lib (SetRawBytes js data p (maskFunc [])) = Inr d'" for d'
  proof -
    from that have "SetRawBytes js data p (maskFunc []) = Inr d'"
      by (simp add: lib_def split: sum.splits)
    with set show ?thesis by blast
  qed
  have n: "lib (SetRawBytes js data p (maskFunc [])) \<noteq> Inr data"
    using e[of data] missing by auto
  from d s e n show ?thesis by auto
qed

text \<open>
  On a document without \<open>email\<close>, with the tree document, which meets the three
  conditions: deleting \<open>email\<close> leaves the document as it is, and masking it adds the
  field with the value \<open>Email("")\<close>.
\<close>

theorem missing_literal_address_witness:
  "\<forall>u.
     (plainPath ''email''
      \<and> \<not> Exists (GetBytes treeDocument idOnly ''email'')
      \<and> Mask (New u) treeDocument idOnly
          \<lparr>Rules = [\<lparr>Path = ''email'', Action = ''-'', sliceLevel = 0\<rparr>]\<rparr> = Inr idOnly
      \<and> Mask (New u) treeDocument idOnly
          \<lparr>Rules = [\<lparr>Path = ''email'', Action = ''email'', sliceLevel = 0\<rparr>]\<rparr>
        = Inr (JObj [(''email'', JRaw (quoted ''invalid_email_format'')), (''id'', JRaw ''1'')])
      \<and> Mask (New u) treeDocument idOnly
          \<lparr>Rules = [\<lparr>Path = ''email'', Action = ''email'', sliceLevel = 0\<rparr>]\<rparr> \<noteq> Inr idOnly)"
  (is "\<forall>u. ?P u")
proof (rule allI)
  fix u
  have h1: "plainPath ''email''"
    by code_simp
  have h2: "\<not> Exists (GetBytes treeDocument idOnly ''email'')"
    by code_simp
  have reg: "''email'' \<noteq> ''-'' \<and> funcs (New u) ''email'' = Some Email"
    by (simp add: New_def NewWithMaskTag_def AddFunc_def Let_def)
  have run: "lib (SetRawBytes treeDocument idOnly ''email'' (Email []))
      = Inr (JObj [(''email'', JRaw (quoted ''invalid_email_format'')), (''id'', JRaw ''1'')])"
    by code_simp
  have c1: "\<forall>d q. plainPath q \<and> \<not> Exists (GetBytes treeDocument d q)
      \<longrightarrow> DeleteBytes treeDocument d q = Inr d"
    by (simp add: treeDocument_delete_missing)
  have c2: "\<forall>d q. \<not> Exists (GetBytes treeDocument d q) \<longrightarrow> Raw (GetBytes treeDocument d q) = []"
    by (simp add: treeDocument_get_missing)
  have c3: "\<forall>d q raw d'. SetRawBytes treeDocument d q raw = Inr d' \<longrightarrow>
      Exists (GetBytes treeDocument d' q) \<and> Raw (GetBytes treeDocument d' q) = raw"
    using treeDocument_get_after_set by blast
  note t = missing_literal_address[where jm = "New u" and a = "''email''" and maskFunc = Email,
      OF c1 c2 c3 h1 h2]
  from t have a: "Mask (New u) treeDocument idOnly
       \<lparr>Rules = [\<lparr>Path = ''email'', Action = ''-'', sliceLevel = 0\<rparr>]\<rparr> = Inr idOnly"
    by (rule conjunct1)
  from t reg have b: "Mask (New u) treeDocument idOnly
       \<lparr>Rules = [\<lparr>Path = ''email'', Action = ''email'', sliceLevel = 0\<rparr>]\<rparr>
     = lib (SetRawBytes treeDocument idOnly ''email'' (Email []))"
    by blast
  from t reg have c: "Mask (New u) treeDocument idOnly
       \<lparr>Rules = [\<lparr>Path = ''email'', Action = ''email'', sliceLevel = 0\<rparr>]\<rparr> \<noteq> Inr idOnly"
    by blast
  from h1 h2 a b[unfolded run] c show "?P u" by (intro conjI)
qed

text \<open>
  The claim as stated fails in both halves. The deletion of the missing address
  \<open>orders.#.total\<close> by a rule with \<open>sliceLevel = 0\<close> is an error of the library, which
  refuses to delete at a path with a wildcard. And on a document without \<open>email\<close>
  the rule \<open>{email, email}\<close> does not leave the document unchanged: afterwards the
  document has the field, with the value \<open>"invalid_email_format"\<close>.
\<close>

theorem missing_literal_address_counterexample:
  "\<forall>u.
     (\<not> Exists (GetBytes treeDocument idOnly ''orders.#.total'')
      \<and> Mask (New u) treeDocument idOnly \<lparr>Rules = [callerRule ''orders.#.total'' ''-'']\<rparr>
          = Inl (LibraryError ''cannot delete value from a complex path'')
      \<and> \<not> Exists (GetBytes treeDocument idOnly ''email'')
      \<and> Mask (New u) treeDocument idOnly \<lparr>Rules = [callerRule ''email'' ''email'']\<rparr>
          = Inr (JObj [(''email'', JRaw (quoted ''invalid_email_format'')), (''id'', JRaw ''1'')])
      \<and> Mask (New u) treeDocument idOnly \<lparr>Rules = [callerRule ''email'' ''email'']\<rparr> \<noteq> Inr idOnly)"
  (is "\<forall>u. ?P u")
proof (rule allI)
  fix u
  show "?P u"
    by code_simp
qed

text \<open>
  C10. A rule written by a caller has \<open>sliceLevel = 0\<close>, and \<open>mask\<close> applies it
  with \<open>maskSimplePath\<close> on its whole path, whatever the path contains; no wildcard is
  expanded.
\<close>

theorem caller_rules_take_simple_path:
  "sliceLevel (callerRule p a) = 0
   \<and> mask jm js data (callerRule p a # rules) =
       (case maskSimplePath jm js data p a of
          Inl err \<Rightarrow> Inl err
        | Inr data' \<Rightarrow> mask jm js data' rules)"
  by (simp add: callerRule_def)

text \<open>
  Caller rules with \<open>#\<close> in the path: the deletion is one call of
  \<open>sjson.DeleteBytes\<close> on the path as it is, and an unregistered action on a missing
  array is not an error, as it is for the same path with \<open>sliceLevel = 1\<close>.
\<close>

theorem caller_rules_take_simple_path_witness:
  "\<forall>u.
     (mask (New u) treeDocument twoItems [callerRule ''items.#.currency'' ''-'']
        = lib (DeleteBytes treeDocument twoItems ''items.#.currency'')
      \<and> mask (New u) treeDocument idOnly [callerRule ''orders.#.total'' ''hash''] = Inr idOnly
      \<and> mask (New u) treeDocument idOnly
            [\<lparr>Path = ''orders.#.total'', Action = ''hash'', sliceLevel = 1\<rparr>]
          = Inl JsonArrayNotFound)"
  (is "\<forall>u. ?P u")
proof (rule allI)
  fix u
  have a: "maskSimplePath (New u) treeDocument twoItems ''items.#.currency'' ''-''
      = lib (DeleteBytes treeDocument twoItems ''items.#.currency'')"
    by (simp add: maskSimplePath_def)
  have b: "maskSimplePath (New u) treeDocument idOnly ''orders.#.total'' ''hash'' = Inr idOnly"
    by code_simp
  have c: "mask (New u) treeDocument idOnly
         [\<lparr>Path = ''orders.#.total'', Action = ''hash'', sliceLevel = 1\<rparr>]
       = Inl JsonArrayNotFound"
    by code_simp
  from caller_rules_take_simple_path[of "''items.#.currency''" "''-''" "New u" treeDocument twoItems "[]"]
  have d: "mask (New u) treeDocument twoItems [callerRule ''items.#.currency'' ''-'']
     = (case maskSimplePath (New u) treeDocument twoItems ''items.#.currency'' ''-'' of
          Inl err \<Rightarrow> Inl err | Inr data' \<Rightarrow> mask (New u) treeDocument data' [])"
    by (rule conjunct2)
  from caller_rules_take_simple_path[of "''orders.#.total''" "''hash''" "New u" treeDocument idOnly "[]"]
  have e: "mask (New u) treeDocument idOnly [callerRule ''orders.#.total'' ''hash'']
     = (case maskSimplePath (New u) treeDocument idOnly ''orders.#.total'' ''hash'' of
          Inl err \<Rightarrow> Inl err | Inr data' \<Rightarrow> mask (New u) treeDocument data' [])"
    by (rule conjunct2)
  have d': "mask (New u) treeDocument twoItems [callerRule ''items.#.currency'' ''-'']
     = lib (DeleteBytes treeDocument twoItems ''items.#.currency'')"
    unfolding d a by (cases "lib (DeleteBytes treeDocument twoItems ''items.#.currency'')") simp_all
  have e': "mask (New u) treeDocument idOnly [callerRule ''orders.#.total'' ''hash''] = Inr idOnly"
    unfolding e b by simp
  from d' e' c show "?P u" by (intro conjI)
qed

end
